theory Spec2Isabelle
  imports Complex_Main "HOL-Library.Word" "HOL-Library.Monad_Syntax"
begin

unbundle bit_operations_syntax

section \<open>Risograph pipeline: data model\<close>

text \<open>
  JavaScript Numbers are modelled as reals (IEEE rounding of doubles and of
  \<open>Float32Array\<close> stores is not modelled). In \<open>decomposeColors\<close> the two places where a
  Number can stop being a finite real are written out as \<open>None\<close>: a division whose divisor
  is zero and a read past the end of the pixel array (\<open>undefined\<close>, which arithmetic turns
  into NaN). The halftone screens divide by the grid pitch with the division of the reals,
  so their values are those of the source for a pitch other than zero.
  Typed arrays are lists: \<open>xs[i := v]\<close> ignores a write out of range, as a typed array does.
  The bytes of a \<open>Uint8ClampedArray\<close> are natural numbers, the dimensions of an
  \<open>ImageData\<close> (unsigned in the DOM) as well.
\<close>

datatype rgb = RGB (rgb_r: nat) (rgb_g: nat) (rgb_b: nat)

record ImageData =
  data :: "nat list"
  width :: nat
  height :: nat

type_synonym vec3 = "real \<times> real \<times> real"

definition get_byte :: "nat list \<Rightarrow> nat \<Rightarrow> real option" where
  "get_byte d i = (if i < length d then Some (real (d ! i)) else None)"

definition js_div :: "real \<Rightarrow> real \<Rightarrow> real option" where
  "js_div a c = (if c = 0 then None else Some (a / c))"

section \<open>decomposeColors\<close>

definition inkDelta :: "rgb \<Rightarrow> rgb \<Rightarrow> vec3" where
  "inkDelta paper ink =
     ((real (rgb_r paper) - real (rgb_r ink)) / 255,
      (real (rgb_g paper) - real (rgb_g ink)) / 255,
      (real (rgb_b paper) - real (rgb_b ink)) / 255)"

fun dot3 :: "vec3 \<Rightarrow> vec3 \<Rightarrow> real" where
  "dot3 (a0, a1, a2) (c0, c1, c2) = a0 * c0 + a1 * c1 + a2 * c2"

text \<open>The body of the two nested loops that fill \<open>dotInkInk\<close> (row-major, \<open>n \<times> n\<close>).\<close>

definition gram_cell :: "vec3 list \<Rightarrow> nat \<Rightarrow> nat \<Rightarrow> nat \<Rightarrow> real list \<Rightarrow> real list" where
  "gram_cell inkDeltas n i j g =
     (let dot = dot3 (inkDeltas ! i) (inkDeltas ! j)
      in (g[i * n + j := dot])[j * n + i := dot])"

definition dotInkInk_of :: "vec3 list \<Rightarrow> real list" where
  "dotInkInk_of inkDeltas =
     (let n = length inkDeltas
      in fold (\<lambda>i g. fold (\<lambda>j g'. gram_cell inkDeltas n i j g') [i..<n] g) [0..<n]
           (replicate (n * n) 0))"

text \<open>
  The expression \<open>selfDot > 1e-10 ? Math.max(0, Math.min(1, numerator / selfDot)) : 0\<close>.
\<close>

definition clamp_ratio :: "real \<Rightarrow> real \<Rightarrow> real option" where
  "clamp_ratio selfDot numerator =
     (if selfDot > 1 / 10 ^ 10
      then map_option (\<lambda>q. max 0 (min 1 q)) (js_div numerator selfDot)
      else Some 0)"

definition dotInkTarget_of :: "vec3 list \<Rightarrow> vec3 \<Rightarrow> real list" where
  "dotInkTarget_of inkDeltas t =
     (let n = length inkDeltas
      in fold (\<lambda>i a. a[i := dot3 (inkDeltas ! i) t]) [0..<n] (replicate n 0))"

text \<open>The loop "initial value: plain projection" over \<open>i\<close>.\<close>

definition init_densities :: "real list \<Rightarrow> real list \<Rightarrow> nat \<Rightarrow> real list \<Rightarrow> real list option" where
  "init_densities dotInkInk dotInkTarget n densities =
     fold (\<lambda>i acc. do {
             d \<leftarrow> acc;
             v \<leftarrow> clamp_ratio (dotInkInk ! (i * n + i)) (dotInkTarget ! i);
             Some (d[i := v])
           }) [0..<n] (Some densities)"

text \<open>The innermost loop over \<open>j\<close>: \<open>if (j !== i) numerator -= densities[j] * dotInkInk[i*n+j]\<close>.\<close>

definition numerator_of :: "real list \<Rightarrow> real list \<Rightarrow> nat \<Rightarrow> real list \<Rightarrow> nat \<Rightarrow> real" where
  "numerator_of dotInkInk dotInkTarget n densities i =
     fold (\<lambda>j numerator.
             if j \<noteq> i then numerator - densities ! j * dotInkInk ! (i * n + j) else numerator)
          [0..<n] (dotInkTarget ! i)"

text \<open>One pass of the loop over \<open>i\<close> inside the iteration loop.\<close>

definition sweep :: "real list \<Rightarrow> real list \<Rightarrow> nat \<Rightarrow> real list \<Rightarrow> real list option" where
  "sweep dotInkInk dotInkTarget n densities =
     fold (\<lambda>i acc. do {
             d \<leftarrow> acc;
             v \<leftarrow> clamp_ratio (dotInkInk ! (i * n + i))
                    (numerator_of dotInkInk dotInkTarget n d i);
             Some (d[i := v])
           }) [0..<n] (Some densities)"

definition MAX_ITER :: nat where
  "MAX_ITER = 12"

definition iterate_sweeps :: "real list \<Rightarrow> real list \<Rightarrow> nat \<Rightarrow> real list \<Rightarrow> real list option" where
  "iterate_sweeps dotInkInk dotInkTarget n densities =
     fold (\<lambda>iter acc. acc \<bind> sweep dotInkInk dotInkTarget n) [0..<MAX_ITER] (Some densities)"

text \<open>\<open>for (i...) maps[i][p] = v i\<close>.\<close>

definition write_pixel :: "nat \<Rightarrow> nat \<Rightarrow> (nat \<Rightarrow> real) \<Rightarrow> real list list \<Rightarrow> real list list" where
  "write_pixel n p v maps = fold (\<lambda>i m. m[i := (m ! i)[p := v i]]) [0..<n] maps"

text \<open>
  The body of the loop over the pixels \<open>p\<close>. The state is the pair of \<open>maps\<close> and the
  scratch array \<open>densities\<close>, which the source allocates once and reuses for every pixel.
\<close>

definition decompose_pixel ::
  "nat list \<Rightarrow> rgb \<Rightarrow> vec3 list \<Rightarrow> real list \<Rightarrow> nat \<Rightarrow> nat \<Rightarrow>
   real list list \<times> real list \<Rightarrow> (real list list \<times> real list) option" where
  "decompose_pixel dat paper inkDeltas dotInkInk n p st =
     (case st of (maps, densities) \<Rightarrow> do {
        let off = p * 4;
        a \<leftarrow> get_byte dat (off + 3);
        let alpha = a / 255;
        if alpha < 0.01 then Some (write_pixel n p (\<lambda>i. 0) maps, densities)
        else do {
          pr \<leftarrow> get_byte dat off;
          pg \<leftarrow> get_byte dat (off + 1);
          pb \<leftarrow> get_byte dat (off + 2);
          let tr = ((real (rgb_r paper) - pr) / 255) * alpha;
          let tg = ((real (rgb_g paper) - pg) / 255) * alpha;
          let tb = ((real (rgb_b paper) - pb) / 255) * alpha;
          let dotInkTarget = dotInkTarget_of inkDeltas (tr, tg, tb);
          d0 \<leftarrow> init_densities dotInkInk dotInkTarget n densities;
          d \<leftarrow> iterate_sweeps dotInkInk dotInkTarget n d0;
          Some (write_pixel n p (\<lambda>i. d ! i) maps, d)
        }
      })"

definition decomposeColors :: "ImageData \<Rightarrow> rgb list \<Rightarrow> rgb \<Rightarrow> real list list option" where
  "decomposeColors imageData inkRgbs paper =
     (let n = length inkRgbs;
          pixelCount = width imageData * height imageData;
          inkDeltas = map (inkDelta paper) inkRgbs;
          dotInkInk = dotInkInk_of inkDeltas;
          maps = replicate n (replicate pixelCount 0);
          densities = replicate n 0
      in map_option fst
           (fold (\<lambda>p acc. acc \<bind> decompose_pixel (data imageData) paper inkDeltas dotInkInk n p)
              [0..<pixelCount] (Some (maps, densities))))"

section \<open>halftone.ts\<close>

datatype HalftoneMode = AM | FM

record HalftoneOptions =
  h_dotSize :: real
  h_angle :: real
  h_density :: "real option"
  h_mode :: "HalftoneMode option"

text \<open>\<open>a % 1\<close>: the remainder of JavaScript truncates towards zero and keeps the sign of \<open>a\<close>.\<close>

definition js_rem1 :: "real \<Rightarrow> real" where
  "js_rem1 a = (if a \<ge> 0 then a - real_of_int \<lfloor>a\<rfloor> else a - real_of_int \<lceil>a\<rceil>)"

text \<open>\<open>Math.round\<close> rounds a half upwards.\<close>

definition js_round :: "real \<Rightarrow> int" where
  "js_round v = \<lfloor>v + 1 / 2\<rfloor>"

definition halftoneAt :: "real \<Rightarrow> real \<Rightarrow> real \<Rightarrow> HalftoneOptions \<Rightarrow> real" where
  "halftoneAt x y dens options =
     (let dotSize = h_dotSize options;
          rad = (h_angle options * pi) / 180;
          c = cos rad;
          s = sin rad;
          rx = x * c + y * s;
          ry = - x * s + y * c;
          cellX = js_rem1 (rx / dotSize);
          cellY = js_rem1 (ry / dotSize);
          cx = cellX - real_of_int (js_round cellX);
          cy = cellY - real_of_int (js_round cellY);
          dist = sqrt (cx * cx + cy * cy);
          scale = (case h_density options of None \<Rightarrow> 1 | Some v \<Rightarrow> v);
          scaled = min (dens * scale) 1;
          radius = sqrt scaled * 0.5;
          edge = 0.5 / dotSize
      in if dist < radius - edge then 1
         else if dist > radius + edge then 0
         else 1 - (dist - (radius - edge)) / (2 * edge))"

text \<open>
  The hashes work on 32-bit integers: \<open>| 0\<close> is the conversion to a 32-bit word,
  \<open>Math.imul\<close> the wrapping product, \<open>>>>\<close> the logical shift and \<open>>>> 0\<close> the unsigned
  reading. The sum before \<open>| 0\<close> is taken exactly (the coordinates are far below \<open>2^53\<close>).
\<close>

definition cellHash :: "int \<Rightarrow> int \<Rightarrow> real" where
  "cellHash x y =
     (let h0 = (word_of_int (x * 374761393 + y * 668265263) :: 32 word);
          h1 = (h0 XOR drop_bit 13 h0) * 1274126177;
          h2 = h1 XOR drop_bit 16 h1
      in real (unat h2) / 4294967296)"

text \<open>The body of the loops over \<open>dy\<close> and \<open>dx\<close>: one candidate cell \<open>(cx, cy)\<close>.\<close>

definition fm_cell ::
  "real list \<Rightarrow> nat \<Rightarrow> nat \<Rightarrow> real \<Rightarrow> real \<Rightarrow> real \<Rightarrow> real \<Rightarrow> real \<Rightarrow> real \<Rightarrow>
   real \<Rightarrow> real \<Rightarrow> int \<Rightarrow> int \<Rightarrow> real \<Rightarrow> real" where
  "fm_cell densityMap w h c s cellSize dotRadius edge scale rx ry cx cy maxOpacity =
     (let dotRx = (real_of_int cx + 0.5) * cellSize;
          dotRy = (real_of_int cy + 0.5) * cellSize;
          distX = rx - dotRx;
          distY = ry - dotRy;
          dist = sqrt (distX * distX + distY * distY)
      in if dist > dotRadius + edge then maxOpacity
         else
           let imgX = js_round (dotRx * c - dotRy * s);
               imgY = js_round (dotRx * s + dotRy * c);
               d0 = (if imgX \<ge> 0 \<and> imgX < int w \<and> imgY \<ge> 0 \<and> imgY < int h
                     then densityMap ! nat (imgY * int w + imgX) else 0);
               d = min (d0 * scale) 1;
               threshold = cellHash cx cy
           in if d \<le> threshold then maxOpacity
              else
                let opacity = (if dist < dotRadius - edge then 1
                               else 1 - (dist - (dotRadius - edge)) / (2 * edge))
                in max maxOpacity opacity)"

text \<open>The body of the loops over \<open>y\<close> and \<open>x\<close> of \<open>applyFMHalftone\<close>: the value of one pixel.\<close>

definition fm_pixel ::
  "real list \<Rightarrow> nat \<Rightarrow> nat \<Rightarrow> real \<Rightarrow> real \<Rightarrow> real \<Rightarrow> real \<Rightarrow> real \<Rightarrow> real \<Rightarrow>
   nat \<Rightarrow> nat \<Rightarrow> real" where
  "fm_pixel densityMap w h c s cellSize dotRadius edge scale x y =
     (let rx = real x * c + real y * s;
          ry = - real x * s + real y * c;
          gx = \<lfloor>rx / cellSize\<rfloor>;
          gy = \<lfloor>ry / cellSize\<rfloor>
      in fold (\<lambda>dy m.
                 fold (\<lambda>dx m'.
                         fm_cell densityMap w h c s cellSize dotRadius edge scale rx ry
                           (gx + dx) (gy + dy) m')
                   [-1, 0, 1] m)
           [-1, 0, 1] 0)"

definition applyFMHalftone :: "real list \<Rightarrow> nat \<Rightarrow> nat \<Rightarrow> HalftoneOptions \<Rightarrow> real list" where
  "applyFMHalftone densityMap w h options =
     (let dotSize = h_dotSize options;
          scale = (case h_density options of None \<Rightarrow> 1 | Some v \<Rightarrow> v);
          rad = (h_angle options * pi) / 180;
          c = cos rad;
          s = sin rad;
          cellSize = dotSize;
          dotRadius = dotSize * 0.5;
          edge = max 0.5 (0.5 / dotSize)
      in fold (\<lambda>y res.
                 fold (\<lambda>x res'.
                         res'[y * w + x :=
                                fm_pixel densityMap w h c s cellSize dotRadius edge scale x y])
                   [0..<w] res)
           [0..<h] (replicate (w * h) 0))"

definition applyHalftone :: "real list \<Rightarrow> nat \<Rightarrow> nat \<Rightarrow> HalftoneOptions \<Rightarrow> real list" where
  "applyHalftone densityMap w h options =
     (if h_mode options = Some FM then applyFMHalftone densityMap w h options
      else
        let amOptions = options\<lparr>h_dotSize := h_dotSize options + 1\<rparr>
        in fold (\<lambda>y res.
                   fold (\<lambda>x res'.
                           let i = y * w + x;
                               dens = densityMap ! i
                           in res'[i := halftoneAt (real x) (real y) dens amOptions])
                     [0..<w] res)
             [0..<h] (replicate (w * h) 0))"

section \<open>Scuff noise\<close>

definition scuffHash :: "int \<Rightarrow> int \<Rightarrow> int \<Rightarrow> real" where
  "scuffHash x y seed =
     (let h0 = (word_of_int (x * 374761393 + y * 668265263 + seed * 1013904223) :: 32 word);
          h1 = (h0 XOR drop_bit 13 h0) * 1274126177;
          h2 = h1 XOR drop_bit 16 h1
      in real (unat h2) / 4294967296)"

definition smoothNoise :: "real \<Rightarrow> real \<Rightarrow> real \<Rightarrow> int \<Rightarrow> real" where
  "smoothNoise x y cellSize seed =
     (let gx = \<lfloor>x / cellSize\<rfloor>;
          gy = \<lfloor>y / cellSize\<rfloor>;
          fx = x / cellSize - real_of_int gx;
          fy = y / cellSize - real_of_int gy;
          n00 = scuffHash gx gy seed;
          n10 = scuffHash (gx + 1) gy seed;
          n01 = scuffHash gx (gy + 1) seed;
          n11 = scuffHash (gx + 1) (gy + 1) seed;
          sx = fx * fx * (3 - 2 * fx);
          sy = fy * fy * (3 - 2 * fy)
      in (n00 * (1 - sx) + n10 * sx) * (1 - sy) + (n01 * (1 - sx) + n11 * sx) * sy)"

section \<open>processRisograph\<close>

text \<open>
  \<open>hexToRgb\<close> (module \<open>color\<close>) is not among the sources: the colour fields below hold its
  result, the parsed RGB value. \<open>Math.random()\<close> is the sequence \<open>rnd\<close>, read through a
  counter of the draws made so far. The canvas is the state the function works on.
\<close>

record RisographColor =
  c_name :: string
  color :: rgb
  c_angle :: "real option"

record RisographOptions =
  colors :: "RisographColor list"
  dotSize :: real
  misregistration :: real
  grain :: real
  density :: "real option"
  inkOpacity :: "real option"
  paperColor :: "rgb option"
  halftoneMode :: "HalftoneMode option"
  noise :: "real option"

record Canvas =
  c_width :: nat
  c_height :: nat
  c_pixels :: "nat list"

datatype error =
    IndexSizeError \<comment> \<open>the DOMException of \<open>createImageData\<close> for a zero width or height\<close>
  | NonFinite \<comment> \<open>not a throw: a density was NaN, where this model stops following the source\<close>

definition DEFAULT_ANGLES :: "real list" where
  "DEFAULT_ANGLES = [15, 75, 0, 45, 30, 60, 90, 105]"

definition DEFAULT_PAPER :: rgb where
  "DEFAULT_PAPER = RGB 245 240 232"

definition WHITE :: rgb where
  "WHITE = RGB 255 255 255"

text \<open>Assigning \<open>canvas.width\<close> or \<open>canvas.height\<close> clears the canvas to transparent black.\<close>

definition set_canvas_width :: "Canvas \<Rightarrow> nat \<Rightarrow> Canvas" where
  "set_canvas_width cv w = cv\<lparr>c_width := w, c_pixels := replicate (w * c_height cv * 4) 0\<rparr>"

definition set_canvas_height :: "Canvas \<Rightarrow> nat \<Rightarrow> Canvas" where
  "set_canvas_height cv h = cv\<lparr>c_height := h, c_pixels := replicate (c_width cv * h * 4) 0\<rparr>"

text \<open>
  \<open>createImageData(sw, sh)\<close> of the canvas context throws an \<open>IndexSizeError\<close> when one of
  its arguments is zero (HTML Standard, section on pixel manipulation).
\<close>

definition createImageData :: "nat \<Rightarrow> nat \<Rightarrow> error + nat list" where
  "createImageData w h = (if w = 0 \<or> h = 0 then Inl IndexSizeError else Inr (replicate (w * h * 4) 0))"

text \<open>\<open>putImageData(outputData, 0, 0)\<close> on a canvas of the size of \<open>outputData\<close>.\<close>

definition putImageData :: "Canvas \<Rightarrow> nat list \<Rightarrow> Canvas" where
  "putImageData cv out = cv\<lparr>c_pixels := out\<rparr>"

text \<open>A store into a \<open>Uint8ClampedArray\<close> of an integral Number.\<close>

definition to_uint8_clamped :: "int \<Rightarrow> nat" where
  "to_uint8_clamped v = nat (max 0 (min 255 v))"

text \<open>The loop that initialises the output buffer with the paper colour.\<close>

definition fill_paper :: "rgb \<Rightarrow> nat \<Rightarrow> nat \<Rightarrow> nat list \<Rightarrow> nat list" where
  "fill_paper paper w h out0 =
     fold (\<lambda>i out.
             let off = i * 4
             in out[off := to_uint8_clamped (int (rgb_r paper)),
                    off + 1 := to_uint8_clamped (int (rgb_g paper)),
                    off + 2 := to_uint8_clamped (int (rgb_b paper)),
                    off + 3 := 255])
       [0..<w * h] out0"

text \<open>The block \<open>if (noise > 0)\<close>: the scuff mask of the layer \<open>ci\<close>.\<close>

definition scuff_layer :: "real \<Rightarrow> real \<Rightarrow> nat \<Rightarrow> nat \<Rightarrow> nat \<Rightarrow> real list \<Rightarrow> real list" where
  "scuff_layer nz dsz ci w h halftoneMap =
     (let scuffSize = max (dsz * 3) 6;
          seed = int ci * 7919 + 31
      in fold (\<lambda>i hm.
                 if hm ! i < 0.004 then hm
                 else
                   let px = i mod w;
                       py = i div w;
                       n = smoothNoise (real px) (real py) scuffSize seed
                   in if n < nz then hm[i := 0] else hm)
           [0..<w * h] halftoneMap)"

text \<open>One registration offset: a draw is made only when \<open>misregistration > 0\<close>.\<close>

definition draw_offset :: "(nat \<Rightarrow> real) \<Rightarrow> real \<Rightarrow> nat \<Rightarrow> int \<times> nat" where
  "draw_offset rnd misreg k =
     (if misreg > 0 then (js_round ((rnd k - 0.5) * 2 * misreg), Suc k) else (0, k))"

text \<open>The grain applied to one opacity: a draw is made only when \<open>grain > 0\<close>.\<close>

definition apply_grain :: "(nat \<Rightarrow> real) \<Rightarrow> real \<Rightarrow> real \<Rightarrow> nat \<Rightarrow> real \<times> nat" where
  "apply_grain rnd gr opacity k =
     (if gr > 0 then (max 0 (min 1 (opacity + (rnd k - 0.5) * gr)), Suc k) else (opacity, k))"

text \<open>The multiplicative blend of one ink into the pixel at \<open>dstOff\<close>.\<close>

definition blend_pixel :: "nat list \<Rightarrow> nat \<Rightarrow> rgb \<Rightarrow> real \<Rightarrow> real \<Rightarrow> nat list" where
  "blend_pixel out dstOff ink f opacity =
     (let prevR = real (out ! dstOff);
          prevG = real (out ! (dstOff + 1));
          prevB = real (out ! (dstOff + 2));
          tR = 1 - opacity * f * (1 - real (rgb_r ink) / 255);
          tG = 1 - opacity * f * (1 - real (rgb_g ink) / 255);
          tB = 1 - opacity * f * (1 - real (rgb_b ink) / 255)
      in out[dstOff := to_uint8_clamped (js_round (prevR * tR)),
             dstOff + 1 := to_uint8_clamped (js_round (prevG * tG)),
             dstOff + 2 := to_uint8_clamped (js_round (prevB * tB))])"

text \<open>The body of the loops over \<open>y\<close> and \<open>x\<close>; the state is the buffer and the draw counter.\<close>

definition composite_pixel ::
  "(nat \<Rightarrow> real) \<Rightarrow> nat \<Rightarrow> nat \<Rightarrow> real list \<Rightarrow> rgb \<Rightarrow> real \<Rightarrow> real \<Rightarrow> int \<Rightarrow> int \<Rightarrow>
   nat \<Rightarrow> nat \<Rightarrow> nat list \<times> nat \<Rightarrow> nat list \<times> nat" where
  "composite_pixel rnd w h halftoneMap ink f gr ox oy y x st =
     (case st of (out, k) \<Rightarrow>
        let srcX = int x - ox;
            srcY = int y - oy
        in if srcX < 0 \<or> srcX \<ge> int w \<or> srcY < 0 \<or> srcY \<ge> int h then (out, k)
           else
             case apply_grain rnd gr (halftoneMap ! nat (srcY * int w + srcX)) k of
               (opacity, k') \<Rightarrow>
                 if opacity < 0.004 then (out, k')
                 else (blend_pixel out ((y * w + x) * 4) ink f opacity, k'))"

definition composite_layer ::
  "(nat \<Rightarrow> real) \<Rightarrow> nat \<Rightarrow> nat \<Rightarrow> real list \<Rightarrow> rgb \<Rightarrow> real \<Rightarrow> real \<Rightarrow> int \<Rightarrow> int \<Rightarrow>
   nat list \<times> nat \<Rightarrow> nat list \<times> nat" where
  "composite_layer rnd w h halftoneMap ink f gr ox oy st =
     fold (\<lambda>y st'. fold (\<lambda>x st''. composite_pixel rnd w h halftoneMap ink f gr ox oy y x st'')
                      [0..<w] st')
       [0..<h] st"

text \<open>The body of the loop over the inks \<open>ci\<close>.\<close>

definition render_layer ::
  "(nat \<Rightarrow> real) \<Rightarrow> RisographOptions \<Rightarrow> nat \<Rightarrow> nat \<Rightarrow> rgb list \<Rightarrow> real list list \<Rightarrow> nat \<Rightarrow>
   nat list \<times> nat \<Rightarrow> nat list \<times> nat" where
  "render_layer rnd options w h inkRgbs densityMaps ci st =
     (case st of (out, k) \<Rightarrow>
        let ink = inkRgbs ! ci;
            ang = (case c_angle (colors options ! ci) of
                     Some a \<Rightarrow> a
                   | None \<Rightarrow> DEFAULT_ANGLES ! (ci mod length DEFAULT_ANGLES));
            halftoneMap0 = applyHalftone (densityMaps ! ci) w h
                             \<lparr>h_dotSize = dotSize options, h_angle = ang,
                              h_density = density options, h_mode = halftoneMode options\<rparr>;
            nz = (case noise options of None \<Rightarrow> 0 | Some v \<Rightarrow> v);
            halftoneMap = (if nz > 0 then scuff_layer nz (dotSize options) ci w h halftoneMap0
                           else halftoneMap0)
        in case draw_offset rnd (misregistration options) k of
             (ox, k1) \<Rightarrow>
               case draw_offset rnd (misregistration options) k1 of
                 (oy, k2) \<Rightarrow>
                   composite_layer rnd w h halftoneMap ink
                     (case inkOpacity options of None \<Rightarrow> 0.85 | Some v \<Rightarrow> v)
                     (grain options) ox oy (out, k2))"

definition processRisograph ::
  "(nat \<Rightarrow> real) \<Rightarrow> ImageData \<Rightarrow> Canvas \<Rightarrow> RisographOptions \<Rightarrow> (error \<times> Canvas) + Canvas" where
  "processRisograph rnd sourceData canvas options =
     (let w = width sourceData;
          h = height sourceData;
          paper = (case paperColor options of Some c \<Rightarrow> c | None \<Rightarrow> DEFAULT_PAPER);
          canvas1 = set_canvas_height (set_canvas_width canvas w) h;
          inkRgbs = map color (colors options)
      in case decomposeColors sourceData inkRgbs WHITE of
           None \<Rightarrow> Inl (NonFinite, canvas1)
         | Some densityMaps \<Rightarrow>
             (case createImageData w h of
                Inl e \<Rightarrow> Inl (e, canvas1)
              | Inr out0 \<Rightarrow>
                  let out = fill_paper paper w h out0;
                      res = fold (render_layer rnd options w h inkRgbs densityMaps)
                              [0..<length (colors options)] (out, 0)
                  in Inr (putImageData canvas1 (fst res))))"

section \<open>The solver as the specification words it\<close>

text \<open>
  The absorption vector of an ink is \<open>inkDelta\<close> above. The Gram matrix is a function of two
  ink indices, the initial guess a clamped projection per ink, and a sweep updates the
  coefficients one after the other, each from the current values of the others
  (Gauss-Seidel); the solver makes exactly twelve sweeps. "\<open>G_ii \<approx> 0\<close>" is read as
  \<open>G_ii \<le> 1e-10\<close>.
\<close>

definition clamp01 :: "real \<Rightarrow> real" where
  "clamp01 x = max 0 (min 1 x)"

definition spec_gram :: "vec3 list \<Rightarrow> nat \<Rightarrow> nat \<Rightarrow> real" where
  "spec_gram a i j = dot3 (a ! i) (a ! j)"

definition spec_init :: "vec3 list \<Rightarrow> vec3 \<Rightarrow> real list" where
  "spec_init a t =
     map (\<lambda>i. if spec_gram a i i > 1 / 10 ^ 10 then clamp01 (dot3 (a ! i) t / spec_gram a i i) else 0)
       [0..<length a]"

definition spec_update :: "vec3 list \<Rightarrow> vec3 \<Rightarrow> real list \<Rightarrow> nat \<Rightarrow> real" where
  "spec_update a t d i =
     (if spec_gram a i i > 1 / 10 ^ 10
      then clamp01 ((dot3 (a ! i) t
                      - sum_list (map (\<lambda>j. d ! j * spec_gram a i j) (filter (\<lambda>j. j \<noteq> i) [0..<length a])))
                    / spec_gram a i i)
      else 0)"

definition spec_sweep :: "vec3 list \<Rightarrow> vec3 \<Rightarrow> real list \<Rightarrow> real list" where
  "spec_sweep a t d = fold (\<lambda>i d'. d'[i := spec_update a t d' i]) [0..<length a] d"

definition spec_solve :: "vec3 list \<Rightarrow> vec3 \<Rightarrow> real list" where
  "spec_solve a t = (spec_sweep a t ^^ 12) (spec_init a t)"

text \<open>
  The one-ink projection \<open>clamp(dot(target, absorption) / dot(absorption, absorption), 0, 1)\<close>,
  which has no value where the absorption vector is zero.
\<close>

definition spec_projection :: "vec3 \<Rightarrow> vec3 \<Rightarrow> real option" where
  "spec_projection t a = map_option clamp01 (js_div (dot3 t a) (dot3 a a))"

section \<open>Notions used in the statements\<close>

text \<open>The invariant of a bitmap: four bytes per pixel.\<close>

definition bitmap_ok :: "ImageData \<Rightarrow> bool" where
  "bitmap_ok img \<longleftrightarrow> length (data img) = width img * height img * 4"

text \<open>Straight alpha and target vector of the pixel \<open>p\<close>.\<close>

definition alpha_at :: "ImageData \<Rightarrow> nat \<Rightarrow> real" where
  "alpha_at img p = real (data img ! (p * 4 + 3)) / 255"

definition target :: "ImageData \<Rightarrow> rgb \<Rightarrow> nat \<Rightarrow> vec3" where
  "target img paper p =
     (((real (rgb_r paper) - real (data img ! (p * 4))) / 255) * alpha_at img p,
      ((real (rgb_g paper) - real (data img ! (p * 4 + 1))) / 255) * alpha_at img p,
      ((real (rgb_b paper) - real (data img ! (p * 4 + 2))) / 255) * alpha_at img p)"

text \<open>What the decomposition stores for the pixel \<open>p\<close>, one density per ink.\<close>

definition pixel_densities :: "ImageData \<Rightarrow> rgb list \<Rightarrow> rgb \<Rightarrow> nat \<Rightarrow> real list" where
  "pixel_densities img inks paper p =
     (if alpha_at img p < 0.01 then replicate (length inks) 0
      else spec_solve (map (inkDelta paper) inks) (target img paper p))"

text \<open>The maps once the pixels below \<open>k\<close> are done, the others still \<open>0\<close>.\<close>

definition partial_maps :: "ImageData \<Rightarrow> rgb list \<Rightarrow> rgb \<Rightarrow> nat \<Rightarrow> nat \<Rightarrow> real list list" where
  "partial_maps img inks paper pc k =
     map (\<lambda>i. map (\<lambda>q. pixel_densities img inks paper q ! i) [0..<k] @ replicate (pc - k) 0)
       [0..<length inks]"

text \<open>The flat array \<open>G\<close> holds the Gram matrix of the vectors \<open>a\<close>, row by row.\<close>

definition is_gram :: "vec3 list \<Rightarrow> real list \<Rightarrow> bool" where
  "is_gram a G \<longleftrightarrow>
     (\<forall>i<length a. \<forall>j<length a. G ! (i * length a + j) = spec_gram a i j)"

text \<open>Every entry lies in \<open>[0, 1]\<close>.\<close>

definition unit_list :: "real list \<Rightarrow> bool" where
  "unit_list d \<longleftrightarrow> (\<forall>x\<in>set d. 0 \<le> x \<and> x \<le> 1)"


text \<open>
  The index in the opacity map that the pixel \<open>(x, y)\<close> reads after the shift by
  \<open>(ox, oy)\<close>; \<open>None\<close> when the shifted position lies outside the image.
\<close>

definition src_index :: "nat \<Rightarrow> nat \<Rightarrow> int \<Rightarrow> int \<Rightarrow> nat \<Rightarrow> nat \<Rightarrow> nat option" where
  "src_index w h ox oy y x =
     (let srcX = int x - ox;
          srcY = int y - oy
      in if srcX < 0 \<or> srcX \<ge> int w \<or> srcY < 0 \<or> srcY \<ge> int h then None
         else Some (nat (srcY * int w + srcX)))"

text \<open>
  The value of the draw counter when the loops of a layer reach the pixel of index \<open>q\<close>:
  with grain, every earlier pixel whose shifted position is inside the image made one draw.
\<close>

definition draws_before :: "nat \<Rightarrow> nat \<Rightarrow> real \<Rightarrow> int \<Rightarrow> int \<Rightarrow> nat \<Rightarrow> nat \<Rightarrow> nat" where
  "draws_before w h gr ox oy k0 q =
     k0 + (if gr > 0
           then length (filter (\<lambda>k. src_index w h ox oy (k div w) (k mod w) \<noteq> None) [0..<q])
           else 0)"

text \<open>The opacity (shifted, grained) with which a layer reaches the pixel \<open>(x, y)\<close>.\<close>

definition layer_opacity ::
  "(nat \<Rightarrow> real) \<Rightarrow> nat \<Rightarrow> nat \<Rightarrow> real list \<Rightarrow> real \<Rightarrow> int \<Rightarrow> int \<Rightarrow> nat \<Rightarrow> nat \<Rightarrow> nat \<Rightarrow>
   real option" where
  "layer_opacity rnd w h halftoneMap gr ox oy k0 y x =
     map_option
       (\<lambda>i. fst (apply_grain rnd gr (halftoneMap ! i) (draws_before w h gr ox oy k0 (y * w + x))))
       (src_index w h ox oy y x)"

text \<open>The colour channel \<open>c\<close> of an ink, and the byte that the blend stores for one channel.\<close>

definition chan :: "rgb \<Rightarrow> nat \<Rightarrow> nat" where
  "chan ink c = (if c = 0 then rgb_r ink else if c = 1 then rgb_g ink else rgb_b ink)"

definition blend_channel :: "nat \<Rightarrow> nat \<Rightarrow> real \<Rightarrow> real \<Rightarrow> nat" where
  "blend_channel prev inkc f opacity =
     to_uint8_clamped (js_round (real prev * (1 - opacity * f * (1 - real inkc / 255))))"

text \<open>The byte \<open>c\<close> of the pixel \<open>j\<close> after a layer, in terms of the buffer before the layer.\<close>

definition layer_value ::
  "(nat \<Rightarrow> real) \<Rightarrow> nat \<Rightarrow> nat \<Rightarrow> real list \<Rightarrow> rgb \<Rightarrow> real \<Rightarrow> real \<Rightarrow> int \<Rightarrow> int \<Rightarrow>
   nat list \<Rightarrow> nat \<Rightarrow> nat \<Rightarrow> nat \<Rightarrow> nat" where
  "layer_value rnd w h halftoneMap ink f gr ox oy out0 k0 j c =
     (case layer_opacity rnd w h halftoneMap gr ox oy k0 (j div w) (j mod w) of
        None \<Rightarrow> out0 ! (j * 4 + c)
      | Some opacity \<Rightarrow>
          if opacity < 0.004 \<or> c \<ge> 3 then out0 ! (j * 4 + c)
          else blend_channel (out0 ! (j * 4 + c)) (chan ink c) f opacity)"

text \<open>Colour channels and buffer entries that are bytes.\<close>

definition rgb_ok :: "rgb \<Rightarrow> bool" where
  "rgb_ok c \<longleftrightarrow> rgb_r c \<le> 255 \<and> rgb_g c \<le> 255 \<and> rgb_b c \<le> 255"

definition bytes_ok :: "nat list \<Rightarrow> bool" where
  "bytes_ok out \<longleftrightarrow> list_all (\<lambda>v. v \<le> 255) out"

text \<open>The paper colour of a render: the configured one, or the default cream.\<close>

definition paper_of :: "RisographOptions \<Rightarrow> rgb" where
  "paper_of options = (case paperColor options of Some c \<Rightarrow> c | None \<Rightarrow> DEFAULT_PAPER)"

section \<open>Sample inputs\<close>

text \<open>
  Small bitmaps, option records and a canvas on which the statements below are evaluated:
  an opaque and a nearly transparent pixel side by side, a single opaque black pixel, a
  bitmap of width \<open>0\<close>, a configuration with one black ink at angle \<open>0\<close> and dot pitch \<open>0\<close>,
  a configuration without inks, and two random sources: every draw \<open>0\<close>, every draw \<open>0.9\<close>.
\<close>

definition two_pixel_image :: ImageData where
  "two_pixel_image = \<lparr> data = [10, 20, 30, 255, 200, 100, 50, 2], width = 2, height = 1 \<rparr>"

definition black_pixel_image :: ImageData where
  "black_pixel_image = \<lparr> data = [0, 0, 0, 255], width = 1, height = 1 \<rparr>"

definition zero_pitch_options :: RisographOptions where
  "zero_pitch_options =
     \<lparr> colors = [\<lparr> c_name = ''black'', color = RGB 0 0 0, c_angle = Some 0 \<rparr>],
       dotSize = 0, misregistration = 0, grain = 0, density = None, inkOpacity = None,
       paperColor = None, halftoneMode = None, noise = None \<rparr>"

definition small_canvas :: Canvas where
  "small_canvas = \<lparr> c_width = 2, c_height = 1, c_pixels = [0, 0, 0, 0, 0, 0, 0, 0] \<rparr>"

definition zero_draws :: "nat \<Rightarrow> real" where
  "zero_draws k = 0"

definition high_draws :: "nat \<Rightarrow> real" where
  "high_draws k = 9 / 10"


definition no_ink_options :: RisographOptions where
  "no_ink_options =
     \<lparr> colors = [], dotSize = 4, misregistration = 2, grain = 1 / 10, density = None,
       inkOpacity = None, paperColor = Some (RGB 250 250 240), halftoneMode = Some FM,
       noise = Some (1 / 5) \<rparr>"

section \<open>Facts about decomposeColors\<close>

lemma dot3_commute: "dot3 u v = dot3 v u"
  by (cases u; cases v) (simp add: mult.commute)

lemma gram_sym: "spec_gram a i j = spec_gram a j i"
  by (simp add: spec_gram_def dot3_commute)

lemma cell_index_inj:
  fixes n :: nat
  assumes "c < n" "j < n" "a * n + c = i * n + j"
  shows "a = i \<and> c = j"
proof -
  have "a = (a * n + c) div n" using assms(1) by simp
  also have "\<dots> = (i * n + j) div n" using assms(3) by simp
  also have "\<dots> = i" using assms(2) by simp
  finally have "a = i" .
  with assms(3) show ?thesis by simp
qed

lemma clamp_ratio_Some:
  "clamp_ratio s x = Some (if s > 1 / 10 ^ 10 then clamp01 (x / s) else 0)"
  by (auto simp: clamp_ratio_def js_div_def clamp01_def)

lemma fold_fill:
  "n \<le> length xs \<Longrightarrow> fold (\<lambda>i a. a[i := f i]) [0..<n] xs = map f [0..<n] @ drop n xs"
proof (induction n)
  case 0
  then show ?case by simp
next
  case (Suc n)
  then have "fold (\<lambda>i a. a[i := f i]) [0..<Suc n] xs = (map f [0..<n] @ drop n xs)[n := f n]"
    by simp
  also have "\<dots> = map f [0..<n] @ (drop n xs)[0 := f n]"
    by (simp add: list_update_append)
  also have "(drop n xs)[0 := f n] = f n # drop (Suc n) xs"
    using Suc.prems by (cases "drop n xs") (auto simp: drop_Suc drop_tl)
  finally show ?case by simp
qed

lemma dotInkTarget_of_eq: "dotInkTarget_of a t = map (\<lambda>i. dot3 (a ! i) t) [0..<length a]"
  by (simp add: dotInkTarget_of_def fold_fill)

lemma fold_option_update:
  "fold (\<lambda>i acc. acc \<bind> (\<lambda>d. Some (f i d))) xs (Some d) = Some (fold f xs d)"
  by (induction xs arbitrary: d) simp_all

lemma fold_minus_sum:
  "fold (\<lambda>j (num::real). if j \<noteq> i then num - f j else num) xs x0
     = x0 - sum_list (map f (filter (\<lambda>j. j \<noteq> i) xs))"
  by (induction xs arbitrary: x0) simp_all

lemma cell_index_bound:
  fixes n :: nat
  assumes "p < n" "q < n"
  shows "p * n + q < n * n"
proof -
  have "p * n + q < p * n + n" using assms(2) by simp
  also have "\<dots> = Suc p * n" by simp
  also have "\<dots> \<le> n * n" using assms(1) by (simp only: mult_le_mono1 Suc_leI)
  finally show ?thesis .
qed

lemma gram_cell_length: "length (gram_cell a n i j g) = length g"
  by (simp add: gram_cell_def Let_def)

lemma gram_cell_nth:
  assumes "i < n" "j < n" "p < n" "q < n" "length g = n * n"
  shows "gram_cell a n i j g ! (p * n + q)
           = (if (p = i \<and> q = j) \<or> (p = j \<and> q = i) then spec_gram a p q else g ! (p * n + q))"
proof -
  define k where "k = p * n + q"
  define x where "x = i * n + j"
  define y where "y = j * n + i"
  define d where "d = dot3 (a ! i) (a ! j)"
  have b: "k < length g" "x < length g" "y < length g"
    using assms by (simp_all add: cell_index_bound k_def x_def y_def)
  have e1: "k = x \<longleftrightarrow> p = i \<and> q = j"
    unfolding k_def x_def using cell_index_inj [of q n j p i] assms by blast
  have e2: "k = y \<longleftrightarrow> p = j \<and> q = i"
    unfolding k_def y_def using cell_index_inj [of q n i p j] assms by blast
  have g1: "spec_gram a i j = d" "spec_gram a j i = d"
    by (simp_all add: spec_gram_def d_def dot3_commute [of "a ! j"])
  have "gram_cell a n i j g ! k = (g[x := d])[y := d] ! k"
    by (simp add: gram_cell_def Let_def k_def x_def y_def d_def)
  also have "\<dots> = (if k = y then d else if k = x then d else g ! k)"
    using b by (simp add: nth_list_update)
  finally have v: "gram_cell a n i j g ! k = (if k = y then d else if k = x then d else g ! k)" .
  show ?thesis
  proof (cases "(p = i \<and> q = j) \<or> (p = j \<and> q = i)")
    case True
    then have gd: "spec_gram a p q = d" using g1 by blast
    from True have "k = x \<or> k = y" using e1 e2 by blast
    then have "gram_cell a n i j g ! k = d" using v by (cases "k = y") simp_all
    then show ?thesis unfolding k_def by (simp only: True if_True gd)
  next
    case False
    then have "k \<noteq> x" "k \<noteq> y" using e1 e2 by blast+
    then have "gram_cell a n i j g ! k = g ! k" using v by simp
    then show ?thesis unfolding k_def by (simp only: False if_False)
  qed
qed

lemma fold_gram_cell_length: "length (fold (gram_cell a n i) js g) = length g"
  by (induction js arbitrary: g) (simp_all add: gram_cell_length)

lemma fold_gram_cell_nth:
  assumes "\<forall>j\<in>set js. j < n" "i < n" "p < n" "q < n" "length g = n * n"
  shows "fold (gram_cell a n i) js g ! (p * n + q)
           = (if (p = i \<and> q \<in> set js) \<or> (q = i \<and> p \<in> set js) then spec_gram a p q
              else g ! (p * n + q))"
  using assms
proof (induction js arbitrary: g)
  case Nil
  then show ?case by simp
next
  case (Cons j js)
  have "fold (gram_cell a n i) (j # js) g ! (p * n + q)
          = (if (p = i \<and> q \<in> set js) \<or> (q = i \<and> p \<in> set js) then spec_gram a p q
             else gram_cell a n i j g ! (p * n + q))"
    using Cons by (simp add: gram_cell_length)
  also have "gram_cell a n i j g ! (p * n + q)
          = (if (p = i \<and> q = j) \<or> (p = j \<and> q = i) then spec_gram a p q else g ! (p * n + q))"
    using Cons.prems by (intro gram_cell_nth) simp_all
  finally show ?case by auto
qed

lemma fold_rows_length:
  "length (fold (\<lambda>i g. fold (gram_cell a n i) [i..<n] g) rows g) = length g"
  by (induction rows arbitrary: g) (simp_all add: fold_gram_cell_length)

lemma fold_rows_nth:
  assumes "\<forall>i\<in>set rows. i < n" "p < n" "q < n" "length g = n * n"
  shows "fold (\<lambda>i g. fold (gram_cell a n i) [i..<n] g) rows g ! (p * n + q)
           = (if \<exists>i\<in>set rows. (p = i \<and> i \<le> q) \<or> (q = i \<and> i \<le> p) then spec_gram a p q
              else g ! (p * n + q))"
  using assms
proof (induction rows arbitrary: g)
  case Nil
  then show ?case by simp
next
  case (Cons i rows)
  let ?g = "fold (gram_cell a n i) [i..<n] g"
  have len: "length ?g = n * n" using Cons.prems by (simp add: fold_gram_cell_length)
  have "fold (\<lambda>i g. fold (gram_cell a n i) [i..<n] g) (i # rows) g ! (p * n + q)
          = (if \<exists>i\<in>set rows. (p = i \<and> i \<le> q) \<or> (q = i \<and> i \<le> p) then spec_gram a p q
             else ?g ! (p * n + q))"
    using Cons.prems len by (simp add: Cons.IH)
  also have "?g ! (p * n + q)
          = (if (p = i \<and> q \<in> set [i..<n]) \<or> (q = i \<and> p \<in> set [i..<n]) then spec_gram a p q
             else g ! (p * n + q))"
    using Cons.prems by (intro fold_gram_cell_nth) simp_all
  finally show ?case using Cons.prems(2,3) by auto
qed

lemma dotInkInk_of_nth:
  assumes "p < length a" "q < length a"
  shows "dotInkInk_of a ! (p * length a + q) = spec_gram a p q"
proof -
  let ?n = "length a"
  have "fold (\<lambda>i g. fold (gram_cell a ?n i) [i..<?n] g) [0..<?n] (replicate (?n * ?n) 0)
          ! (p * ?n + q)
        = (if \<exists>i\<in>set [0..<?n]. (p = i \<and> i \<le> q) \<or> (q = i \<and> i \<le> p) then spec_gram a p q
           else replicate (?n * ?n) 0 ! (p * ?n + q))"
    using assms by (intro fold_rows_nth) simp_all
  moreover have "\<exists>i\<in>set [0..<?n]. (p = i \<and> i \<le> q) \<or> (q = i \<and> i \<le> p)"
    using assms by (cases "p \<le> q") auto
  ultimately show ?thesis by (simp add: dotInkInk_of_def Let_def)
qed

lemma dotInkInk_of_length: "length (dotInkInk_of a) = length a * length a"
  using fold_rows_length [of a "length a" "[0..<length a]" "replicate (length a * length a) 0"]
  by (simp add: dotInkInk_of_def Let_def)

lemma is_gram_dotInkInk_of: "is_gram a (dotInkInk_of a)"
  by (simp add: is_gram_def dotInkInk_of_nth)

lemma numerator_of_eq:
  assumes "is_gram a G" "i < length a"
  shows "numerator_of G (dotInkTarget_of a t) (length a) d i
           = dot3 (a ! i) t
             - sum_list (map (\<lambda>j. d ! j * spec_gram a i j) (filter (\<lambda>j. j \<noteq> i) [0..<length a]))"
proof -
  have eq: "map (\<lambda>j. d ! j * G ! (i * length a + j)) (filter (\<lambda>j. j \<noteq> i) [0..<length a])
          = map (\<lambda>j. d ! j * spec_gram a i j) (filter (\<lambda>j. j \<noteq> i) [0..<length a])"
    using assms by (intro map_cong refl) (simp add: is_gram_def)
  have "dotInkTarget_of a t ! i = dot3 (a ! i) t"
    using assms(2) by (simp add: dotInkTarget_of_eq)
  then show ?thesis
    unfolding numerator_of_def fold_minus_sum eq by (rule arg_cong)
qed

lemma init_densities_eq:
  assumes "is_gram a G" "length dens = length a"
  shows "init_densities G (dotInkTarget_of a t) (length a) dens = Some (spec_init a t)"
proof -
  let ?c = "\<lambda>i. if spec_gram a i i > 1 / 10 ^ 10 then clamp01 (dot3 (a ! i) t / spec_gram a i i) else 0"
  have "init_densities G (dotInkTarget_of a t) (length a) dens
          = fold (\<lambda>i acc. acc \<bind> (\<lambda>d. Some (d[i := ?c i]))) [0..<length a] (Some dens)"
    unfolding init_densities_def
    using assms(1)
    by (intro fold_cong refl) (simp add: clamp_ratio_Some is_gram_def dotInkTarget_of_eq)
  also have "\<dots> = Some (fold (\<lambda>i d. d[i := ?c i]) [0..<length a] dens)"
    by (rule fold_option_update)
  also have "fold (\<lambda>i d. d[i := ?c i]) [0..<length a] dens = map ?c [0..<length a]"
    using assms(2) by (simp add: fold_fill)
  finally show ?thesis by (simp add: spec_init_def)
qed

lemma sweep_eq:
  assumes "is_gram a G"
  shows "sweep G (dotInkTarget_of a t) (length a) d = Some (spec_sweep a t d)"
proof -
  have "sweep G (dotInkTarget_of a t) (length a) d
          = fold (\<lambda>i acc. acc \<bind> (\<lambda>d'. Some (d'[i := spec_update a t d' i]))) [0..<length a] (Some d)"
    unfolding sweep_def
    using assms
    by (intro fold_cong refl)
       (simp add: clamp_ratio_Some numerator_of_eq spec_update_def is_gram_def)
  also have "\<dots> = Some (fold (\<lambda>i d'. d'[i := spec_update a t d' i]) [0..<length a] d)"
    by (rule fold_option_update)
  finally show ?thesis by (simp add: spec_sweep_def)
qed

lemma fold_bind_funpow:
  assumes "\<And>d. g d = Some (f d)"
  shows "fold (\<lambda>iter acc. acc \<bind> g) [0..<k] (Some d) = Some ((f ^^ k) d)"
  by (induction k) (simp_all add: assms)

lemma iterate_sweeps_eq:
  assumes "is_gram a G"
  shows "iterate_sweeps G (dotInkTarget_of a t) (length a) d = Some ((spec_sweep a t ^^ 12) d)"
  unfolding iterate_sweeps_def MAX_ITER_def
  by (rule fold_bind_funpow) (rule sweep_eq [OF assms])

lemma write_pixel_eq:
  "n \<le> length maps \<Longrightarrow>
   write_pixel n p v maps = map (\<lambda>i. (maps ! i)[p := v i]) [0..<n] @ drop n maps"
proof (induction n)
  case 0
  then show ?case by (simp add: write_pixel_def)
next
  case (Suc n)
  let ?m = "map (\<lambda>i. (maps ! i)[p := v i]) [0..<n] @ drop n maps"
  have dn: "drop n maps = maps ! n # drop (Suc n) maps"
    using Suc.prems by (simp add: Cons_nth_drop_Suc)
  have "write_pixel (Suc n) p v maps = ?m[n := (?m ! n)[p := v n]]"
    using Suc by (simp add: write_pixel_def)
  also have "?m ! n = maps ! n"
    using dn by (simp add: nth_append)
  also have "?m[n := (maps ! n)[p := v n]]
          = map (\<lambda>i. (maps ! i)[p := v i]) [0..<n] @ (drop n maps)[0 := (maps ! n)[p := v n]]"
    by (simp add: list_update_append)
  also have "(drop n maps)[0 := (maps ! n)[p := v n]] = (maps ! n)[p := v n] # drop (Suc n) maps"
    by (subst dn) simp
  finally show ?case by simp
qed

lemma spec_sweep_length: "length (spec_sweep a t d) = length d"
proof -
  have "length (fold (\<lambda>i d'. d'[i := spec_update a t d' i]) xs d) = length d" for xs
    by (induction xs arbitrary: d) simp_all
  then show ?thesis by (simp add: spec_sweep_def)
qed

lemma spec_sweeps_length: "length ((spec_sweep a t ^^ k) d) = length d"
  by (induction k) (simp_all add: spec_sweep_length)

lemma spec_solve_length: "length (spec_solve a t) = length a"
  by (simp add: spec_solve_def spec_sweeps_length spec_init_def)

lemma pixel_densities_length: "length (pixel_densities img inks paper p) = length inks"
  by (simp add: pixel_densities_def spec_solve_length)

lemma decompose_pixel_eq:
  assumes "is_gram (map (inkDelta paper) inks) G" "length dens = length inks"
    and "p * 4 + 3 < length (data img)" "length maps = length inks"
  shows "\<exists>dens'. length dens' = length inks \<and>
           decompose_pixel (data img) paper (map (inkDelta paper) inks) G (length inks) p (maps, dens)
             = Some (map (\<lambda>i. (maps ! i)[p := pixel_densities img inks paper p ! i])
                       [0..<length inks], dens')"
proof (cases "alpha_at img p < 0.01")
  case True
  have "write_pixel (length inks) p (\<lambda>i. 0) maps
          = map (\<lambda>i. (maps ! i)[p := pixel_densities img inks paper p ! i]) [0..<length inks]"
    using assms(4) True by (simp add: write_pixel_eq pixel_densities_def)
  then show ?thesis
    using True assms(2,3)
    by (simp add: decompose_pixel_def get_byte_def alpha_at_def Let_def)
next
  case False
  let ?a = "map (inkDelta paper) inks"
  let ?t = "target img paper p"
  have len: "length ?a = length inks" by simp
  have i: "init_densities G (dotInkTarget_of ?a ?t) (length inks) dens = Some (spec_init ?a ?t)"
    using init_densities_eq [OF assms(1), of dens ?t] assms(2) by simp
  have s: "iterate_sweeps G (dotInkTarget_of ?a ?t) (length inks) (spec_init ?a ?t)
             = Some (spec_solve ?a ?t)"
    using iterate_sweeps_eq [OF assms(1), of ?t "spec_init ?a ?t"] by (simp add: spec_solve_def)
  have w: "write_pixel (length inks) p (\<lambda>i. spec_solve ?a ?t ! i) maps
          = map (\<lambda>i. (maps ! i)[p := pixel_densities img inks paper p ! i]) [0..<length inks]"
    using assms(4) False by (simp add: write_pixel_eq pixel_densities_def)
  have "decompose_pixel (data img) paper ?a G (length inks) p (maps, dens)
          = Some (write_pixel (length inks) p (\<lambda>i. spec_solve ?a ?t ! i) maps, spec_solve ?a ?t)"
    using False assms(3) i s
    by (simp add: decompose_pixel_def get_byte_def alpha_at_def target_def Let_def)
  then show ?thesis
    using w by (simp add: spec_solve_length)
qed

lemma partial_maps_step:
  assumes "k < pc"
  shows "map (\<lambda>i. (partial_maps img inks paper pc k ! i)[k := pixel_densities img inks paper k ! i])
           [0..<length inks]
         = partial_maps img inks paper pc (Suc k)"
proof -
  have r: "replicate (pc - k) (0::real) = 0 # replicate (pc - Suc k) 0"
    using assms by (cases "pc - k") (simp_all add: Suc_diff_Suc)
  show ?thesis
    unfolding partial_maps_def
    by (rule map_cong [OF refl]) (simp add: r list_update_append)
qed

lemma pixel_loop_eq:
  assumes "is_gram (map (inkDelta paper) inks) G" "pc * 4 \<le> length (data img)" "k \<le> pc"
  shows "\<exists>dens. length dens = length inks \<and>
           fold (\<lambda>p acc. acc \<bind>
                   decompose_pixel (data img) paper (map (inkDelta paper) inks) G (length inks) p)
             [0..<k] (Some (replicate (length inks) (replicate pc 0), replicate (length inks) 0))
           = Some (partial_maps img inks paper pc k, dens)"
  using assms(3)
proof (induction k)
  case 0
  have "partial_maps img inks paper pc 0 = replicate (length inks) (replicate pc 0)"
    by (simp add: partial_maps_def map_replicate_trivial)
  then show ?case by simp
next
  case (Suc k)
  then obtain dens where d: "length dens = length inks"
    and f: "fold (\<lambda>p acc. acc \<bind>
                   decompose_pixel (data img) paper (map (inkDelta paper) inks) G (length inks) p)
             [0..<k] (Some (replicate (length inks) (replicate pc 0), replicate (length inks) 0))
           = Some (partial_maps img inks paper pc k, dens)"
    by auto
  have "k * 4 + 3 < length (data img)" using Suc.prems assms(2) by simp
  moreover have "length (partial_maps img inks paper pc k) = length inks"
    by (simp add: partial_maps_def)
  ultimately obtain dens' where d': "length dens' = length inks"
    and p: "decompose_pixel (data img) paper (map (inkDelta paper) inks) G (length inks) k
              (partial_maps img inks paper pc k, dens)
            = Some (map (\<lambda>i. (partial_maps img inks paper pc k ! i)
                                 [k := pixel_densities img inks paper k ! i]) [0..<length inks], dens')"
    using decompose_pixel_eq [OF assms(1) d] by blast
  have "k < pc" using Suc.prems by simp
  then show ?case
    using d' f p by (simp add: partial_maps_step)
qed

lemma decomposeColors_eq:
  assumes "bitmap_ok img"
  shows "decomposeColors img inks paper
           = Some (map (\<lambda>i. map (\<lambda>q. pixel_densities img inks paper q ! i)
                               [0..<width img * height img]) [0..<length inks])"
proof -
  let ?pc = "width img * height img"
  have "?pc * 4 \<le> length (data img)" using assms by (simp add: bitmap_ok_def)
  from pixel_loop_eq [OF is_gram_dotInkInk_of this order_refl]
  obtain dens where
    "fold (\<lambda>p acc. acc \<bind>
              decompose_pixel (data img) paper (map (inkDelta paper) inks)
                (dotInkInk_of (map (inkDelta paper) inks)) (length inks) p)
        [0..<?pc] (Some (replicate (length inks) (replicate ?pc 0), replicate (length inks) 0))
      = Some (partial_maps img inks paper ?pc ?pc, dens)"
    by blast
  then show ?thesis
    by (simp add: decomposeColors_def Let_def partial_maps_def)
qed

lemma clamp01_range: "0 \<le> clamp01 x \<and> clamp01 x \<le> 1"
  by (simp add: clamp01_def)

lemma spec_update_range: "0 \<le> spec_update a t d i \<and> spec_update a t d i \<le> 1"
  using clamp01_range by (simp add: spec_update_def)

lemma unit_list_update: "unit_list d \<Longrightarrow> 0 \<le> v \<Longrightarrow> v \<le> 1 \<Longrightarrow> unit_list (d[i := v])"
  unfolding unit_list_def by (metis insertE set_update_subset_insert subsetD)

lemma spec_sweep_unit: "unit_list d \<Longrightarrow> unit_list (spec_sweep a t d)"
proof -
  have "unit_list d \<Longrightarrow> unit_list (fold (\<lambda>i d'. d'[i := spec_update a t d' i]) xs d)" for xs
    by (induction xs arbitrary: d) (simp_all add: unit_list_update spec_update_range)
  then show "unit_list d \<Longrightarrow> unit_list (spec_sweep a t d)" by (simp add: spec_sweep_def)
qed

lemma spec_sweeps_unit: "unit_list d \<Longrightarrow> unit_list ((spec_sweep a t ^^ k) d)"
  by (induction k) (simp_all add: spec_sweep_unit)

lemma spec_init_unit: "unit_list (spec_init a t)"
  using clamp01_range by (auto simp: unit_list_def spec_init_def)

lemma spec_solve_unit: "unit_list (spec_solve a t)"
  by (simp add: spec_solve_def spec_sweeps_unit spec_init_unit)

lemma pixel_densities_unit: "unit_list (pixel_densities img inks paper p)"
  by (simp add: pixel_densities_def spec_solve_unit) (simp add: unit_list_def)

lemma funpow_fixed: "f x = x \<Longrightarrow> (f ^^ k) x = x"
  by (induction k) simp_all

lemma spec_solve_single:
  "spec_solve [a] t = [if dot3 a a > 1 / 10 ^ 10 then clamp01 (dot3 a t / dot3 a a) else 0]"
proof -
  let ?c = "if dot3 a a > 1 / 10 ^ 10 then clamp01 (dot3 a t / dot3 a a) else 0"
  have i: "spec_init [a] t = [?c]" by (simp add: spec_init_def spec_gram_def)
  have "spec_sweep [a] t [?c] = [?c]" by (simp add: spec_sweep_def spec_update_def spec_gram_def)
  then show ?thesis unfolding spec_solve_def i by (rule funpow_fixed)
qed

lemma inkDelta_self_dot:
  "dot3 (inkDelta paper ink) (inkDelta paper ink) > 1 / 10 ^ 10 \<longleftrightarrow> ink \<noteq> paper"
proof -
  obtain pr pg pb where p: "paper = RGB pr pg pb" by (cases paper)
  obtain ir ig ib where i: "ink = RGB ir ig ib" by (cases ink)
  define x y z where "x = int pr - int ir" and "y = int pg - int ig" and "z = int pb - int ib"
  have d: "dot3 (inkDelta paper ink) (inkDelta paper ink) = real_of_int (x * x + y * y + z * z) / 65025"
    by (simp add: p i inkDelta_def x_def y_def z_def power2_eq_square field_simps)
  have ne: "ink \<noteq> paper \<longleftrightarrow> x \<noteq> 0 \<or> y \<noteq> 0 \<or> z \<noteq> 0"
    by (auto simp: p i x_def y_def z_def)
  have nn: "0 \<le> x * x" "0 \<le> y * y" "0 \<le> z * z" by simp_all
  have pos: "w \<noteq> 0 \<Longrightarrow> 1 \<le> w * w" for w :: int
  proof -
    assume "w \<noteq> 0"
    then have "1 \<le> \<bar>w\<bar>" by simp
    then have "1 * 1 \<le> \<bar>w\<bar> * \<bar>w\<bar>" by (intro mult_mono) simp_all
    then show ?thesis by simp
  qed
  show ?thesis
  proof (cases "ink = paper")
    case True
    then have "x * x + y * y + z * z = 0" using ne by simp
    then show ?thesis using True d by simp
  next
    case False
    then have "1 \<le> x * x + y * y + z * z" using ne nn pos [of x] pos [of y] pos [of z] by linarith
    then have "1 \<le> real_of_int (x * x + y * y + z * z)" by linarith
    then have "1 / 10 ^ 10 < real_of_int (x * x + y * y + z * z) / 65025" by simp
    then show ?thesis using False d by simp
  qed
qed

section \<open>Loops over the pixel grid\<close>

lemma fold_upt_shift: "fold G [a..<a + n] st = fold (\<lambda>x. G (a + x)) [0..<n] st"
proof -
  have "[a..<a + n] = map (\<lambda>x. a + x) [0..<n]"
    by (induction n) simp_all
  then show ?thesis by (simp add: fold_map comp_def)
qed

lemma fold_grid:
  "fold (\<lambda>y st. fold (\<lambda>x st'. F y x st') [0..<w] st) [0..<h] st0
     = fold (\<lambda>k st. F (k div w) (k mod w) st) [0..<w * h] st0"
proof (induction h)
  case 0
  then show ?case by simp
next
  case (Suc h)
  have "[0..<w * h + w] = [0..<w * h] @ [w * h..<w * h + w]"
    by (rule upt_add_eq_append) simp
  moreover have "w * Suc h = w * h + w" by simp
  moreover have "fold (\<lambda>k st. F (k div w) (k mod w) st) [w * h..<w * h + w] st
                   = fold (\<lambda>x st'. F h x st') [0..<w] st" for st
    unfolding fold_upt_shift by (rule fold_cong) simp_all
  ultimately show ?case using Suc by (simp del: mult_Suc_right)
qed

lemma fold_grid_fill:
  assumes "length xs = w * h"
  shows "fold (\<lambda>y res. fold (\<lambda>x res'. res'[y * w + x := f y x]) [0..<w] res) [0..<h] xs
           = map (\<lambda>k. f (k div w) (k mod w)) [0..<w * h]"
proof -
  have "fold (\<lambda>y res. fold (\<lambda>x res'. res'[y * w + x := f y x]) [0..<w] res) [0..<h] xs
          = fold (\<lambda>k res. res[k := f (k div w) (k mod w)]) [0..<w * h] xs"
    by (simp add: fold_grid)
  then show ?thesis using assms by (simp add: fold_fill)
qed

section \<open>Facts about the halftone screens\<close>


lemma applyHalftone_AM_eq:
  assumes "h_mode options \<noteq> Some FM"
  shows "applyHalftone densityMap w h options
           = map (\<lambda>k. halftoneAt (real (k mod w)) (real (k div w)) (densityMap ! k)
                         (options\<lparr>h_dotSize := h_dotSize options + 1\<rparr>)) [0..<w * h]"
proof -
  have "applyHalftone densityMap w h options
          = fold (\<lambda>y res. fold (\<lambda>x res'.
                     res'[y * w + x := halftoneAt (real x) (real y) (densityMap ! (y * w + x))
                                         (options\<lparr>h_dotSize := h_dotSize options + 1\<rparr>)])
                   [0..<w] res) [0..<h] (replicate (w * h) 0)"
    using assms by (simp add: applyHalftone_def Let_def)
  also have "\<dots> = map (\<lambda>k. halftoneAt (real (k mod w)) (real (k div w))
                              (densityMap ! (k div w * w + k mod w))
                              (options\<lparr>h_dotSize := h_dotSize options + 1\<rparr>)) [0..<w * h]"
    by (rule fold_grid_fill) simp
  finally show ?thesis by simp
qed

lemma applyHalftone_FM_eq:
  assumes "h_mode options = Some FM"
  shows "applyHalftone densityMap w h options
           = map (\<lambda>k. fm_pixel densityMap w h
                         (cos ((h_angle options * pi) / 180)) (sin ((h_angle options * pi) / 180))
                         (h_dotSize options) (h_dotSize options * 0.5)
                         (max 0.5 (0.5 / h_dotSize options))
                         (case h_density options of None \<Rightarrow> 1 | Some v \<Rightarrow> v)
                         (k mod w) (k div w)) [0..<w * h]"
proof -
  let ?f = "\<lambda>y x. fm_pixel densityMap w h
                         (cos ((h_angle options * pi) / 180)) (sin ((h_angle options * pi) / 180))
                         (h_dotSize options) (h_dotSize options * 0.5)
                         (max 0.5 (0.5 / h_dotSize options))
                         (case h_density options of None \<Rightarrow> 1 | Some v \<Rightarrow> v) x y"
  have "applyHalftone densityMap w h options
          = fold (\<lambda>y res. fold (\<lambda>x res'. res'[y * w + x := ?f y x]) [0..<w] res)
              [0..<h] (replicate (w * h) 0)"
    using assms by (simp add: applyHalftone_def applyFMHalftone_def Let_def)
  also have "\<dots> = map (\<lambda>k. ?f (k div w) (k mod w)) [0..<w * h]"
    by (rule fold_grid_fill) simp
  finally show ?thesis .
qed


subsection \<open>The opacity maps lie in the unit range\<close>

lemma ramp_range:
  fixes d r e :: real
  assumes "0 < e" "\<not> d < r - e" "\<not> d > r + e"
  shows "0 \<le> 1 - (d - (r - e)) / (2 * e) \<and> 1 - (d - (r - e)) / (2 * e) \<le> 1"
proof -
  have "0 \<le> d - (r - e)" "d - (r - e) \<le> 2 * e" using assms(2,3) by simp_all
  then have "0 \<le> (d - (r - e)) / (2 * e)" "(d - (r - e)) / (2 * e) \<le> 1"
    using assms(1) by (simp_all add: divide_le_eq)
  then show ?thesis by simp
qed

lemma halftoneAt_range:
  assumes "0 < h_dotSize options"
  shows "0 \<le> halftoneAt x y dens options \<and> halftoneAt x y dens options \<le> 1"
proof -
  have e: "0 < 0.5 / h_dotSize options" using assms by simp
  show ?thesis
    unfolding halftoneAt_def Let_def
    using ramp_range [OF e] by (simp split: if_splits)
qed

lemma fm_cell_range:
  assumes "0 < edge" "0 \<le> m" "m \<le> 1"
  shows "0 \<le> fm_cell densityMap w h c s cellSize dotRadius edge scale rx ry cx cy m
         \<and> fm_cell densityMap w h c s cellSize dotRadius edge scale rx ry cx cy m \<le> 1"
proof -
  define dist where
    "dist = sqrt ((rx - (real_of_int cx + 0.5) * cellSize) * (rx - (real_of_int cx + 0.5) * cellSize)
                  + (ry - (real_of_int cy + 0.5) * cellSize) * (ry - (real_of_int cy + 0.5) * cellSize))"
  define v where
    "v = (if dist < dotRadius - edge then 1 else 1 - (dist - (dotRadius - edge)) / (2 * edge))"
  have v: "0 \<le> v \<and> v \<le> 1" if "\<not> dist > dotRadius + edge"
    unfolding v_def using ramp_range [OF assms(1), of dist dotRadius] that by simp
  have "fm_cell densityMap w h c s cellSize dotRadius edge scale rx ry cx cy m = m
        \<or> (\<not> dist > dotRadius + edge
           \<and> fm_cell densityMap w h c s cellSize dotRadius edge scale rx ry cx cy m = max m v)"
    unfolding fm_cell_def Let_def dist_def [symmetric] v_def [symmetric] by simp
  then show ?thesis using v assms(2,3) by auto
qed

lemma fm_pixel_range:
  assumes "0 < edge"
  shows "0 \<le> fm_pixel densityMap w h c s cellSize dotRadius edge scale x y
         \<and> fm_pixel densityMap w h c s cellSize dotRadius edge scale x y \<le> 1"
proof -
  have inner: "0 \<le> fold (\<lambda>dx m'. fm_cell densityMap w h c s cellSize dotRadius edge scale rx ry
                                    (gx + dx) cy m') dxs m
               \<and> fold (\<lambda>dx m'. fm_cell densityMap w h c s cellSize dotRadius edge scale rx ry
                                    (gx + dx) cy m') dxs m \<le> 1"
    if "0 \<le> m" "m \<le> 1" for rx ry gx cy dxs m
    using that
  proof (induction dxs arbitrary: m)
    case Nil
    then show ?case by simp
  next
    case (Cons dx dxs)
    then show ?case using fm_cell_range [OF assms, of m] by simp
  qed
  have outer: "0 \<le> fold (\<lambda>dy m. fold (\<lambda>dx m'. fm_cell densityMap w h c s cellSize dotRadius edge
                                                     scale rx ry (gx + dx) (gy + dy) m') dxs m) dys m0
               \<and> fold (\<lambda>dy m. fold (\<lambda>dx m'. fm_cell densityMap w h c s cellSize dotRadius edge
                                                     scale rx ry (gx + dx) (gy + dy) m') dxs m) dys m0
                   \<le> 1"
    if "0 \<le> m0" "m0 \<le> 1" for rx ry gx gy dxs dys m0
    using that
  proof (induction dys arbitrary: m0)
    case Nil
    then show ?case by simp
  next
    case (Cons dy dys)
    then show ?case using inner [of m0 rx ry gx "gy + dy" dxs] by simp
  qed
  show ?thesis
    unfolding fm_pixel_def Let_def by (rule outer) simp_all
qed

lemma applyHalftone_unit:
  assumes "h_mode options = Some FM \<or> 0 < h_dotSize options + 1"
  shows "unit_list (applyHalftone densityMap w h options)"
proof (cases "h_mode options = Some FM")
  case True
  have "(0::real) < max 0.5 (0.5 / h_dotSize options)" by simp
  then show ?thesis
    unfolding applyHalftone_FM_eq [OF True] unit_list_def
    using fm_pixel_range by auto
next
  case False
  then have "0 < h_dotSize (options\<lparr>h_dotSize := h_dotSize options + 1\<rparr>)"
    using assms by simp
  then show ?thesis
    unfolding applyHalftone_AM_eq [OF False] unit_list_def
    using halftoneAt_range by auto
qed

lemma scuff_layer_unit:
  assumes "unit_list hm"
  shows "unit_list (scuff_layer nz dsz ci w h hm)"
proof -
  have "unit_list (fold (\<lambda>i hm'.
                 if hm' ! i < 0.004 then hm'
                 else if smoothNoise (real (i mod w)) (real (i div w)) sz seed < nz
                      then hm'[i := 0] else hm') ks hm0)"
    if "unit_list hm0" for ks hm0 sz seed
    using that
    by (induction ks arbitrary: hm0) (simp_all add: unit_list_update)
  from this [OF assms] show ?thesis unfolding scuff_layer_def Let_def .
qed

subsection \<open>The hashes\<close>

lemma hash_word_range: "0 \<le> real (unat (v :: 32 word)) / 4294967296 \<and> real (unat v) / 4294967296 < 1"
proof -
  define r where "r = real (unat v)"
  have "unat v < 2 ^ LENGTH(32)" by (rule unsigned_less)
  then have "unat v < 4294967296" by simp
  then have "real (unat v) < real 4294967296" by (simp only: of_nat_less_iff)
  then have lt: "r < 4294967296" unfolding r_def by simp
  have nn: "0 \<le> r" unfolding r_def by (rule of_nat_0_le_iff)
  have "0 \<le> r / 4294967296 \<and> r / 4294967296 < 1" using nn lt by simp
  then show ?thesis unfolding r_def .
qed

lemma cellHash_range: "0 \<le> cellHash x y \<and> cellHash x y < 1"
  unfolding cellHash_def Let_def by (rule hash_word_range)

lemma scuffHash_range: "0 \<le> scuffHash x y seed \<and> scuffHash x y seed < 1"
  unfolding scuffHash_def Let_def by (rule hash_word_range)

section \<open>Facts about the compositing of a layer\<close>

lemma composite_pixel_src:
  "composite_pixel rnd w h hm ink f gr ox oy y x (out, k)
     = (case src_index w h ox oy y x of
          None \<Rightarrow> (out, k)
        | Some i \<Rightarrow>
            if fst (apply_grain rnd gr (hm ! i) k) < 0.004
            then (out, snd (apply_grain rnd gr (hm ! i) k))
            else (blend_pixel out ((y * w + x) * 4) ink f (fst (apply_grain rnd gr (hm ! i) k)),
                  snd (apply_grain rnd gr (hm ! i) k)))"
  by (simp add: composite_pixel_def src_index_def Let_def split: prod.split)

lemma snd_apply_grain: "snd (apply_grain rnd gr v k) = k + (if gr > 0 then 1 else 0)"
  by (simp add: apply_grain_def)

lemma blend_pixel_length: "length (blend_pixel out d ink f v) = length out"
  by (simp add: blend_pixel_def Let_def)

lemma blend_pixel_nth:
  assumes "d + 2 < length out" "c < 4"
  shows "blend_pixel out d ink f v ! (d + c)
           = (if c \<ge> 3 then out ! (d + c) else blend_channel (out ! (d + c)) (chan ink c) f v)"
proof -
  consider "c = 0" | "c = 1" | "c = 2" | "c = 3" using assms(2) by linarith
  then show ?thesis
    using assms(1)
    by cases (simp_all add: blend_pixel_def Let_def blend_channel_def chan_def)
qed

lemma blend_pixel_other:
  assumes "m < d \<or> d + 2 < m"
  shows "blend_pixel out d ink f v ! m = out ! m"
  using assms by (auto simp: blend_pixel_def Let_def)

text \<open>One step of the flattened loop: its effect on the counter and on every byte.\<close>

lemma composite_pixel_step:
  assumes "k < w * h" "length out = w * h * 4"
  shows "\<exists>out'. composite_pixel rnd w h hm ink f gr ox oy (k div w) (k mod w) (out, n)
             = (out', n + (if gr > 0 \<and> src_index w h ox oy (k div w) (k mod w) \<noteq> None
                           then 1 else 0)) \<and>
           length out' = length out \<and>
           (\<forall>j c. c < 4 \<longrightarrow> j \<noteq> k \<longrightarrow> out' ! (j * 4 + c) = out ! (j * 4 + c)) \<and>
           (\<forall>c<4. out' ! (k * 4 + c)
              = (case src_index w h ox oy (k div w) (k mod w) of
                   None \<Rightarrow> out ! (k * 4 + c)
                 | Some i \<Rightarrow>
                     if fst (apply_grain rnd gr (hm ! i) n) < 0.004 \<or> c \<ge> 3
                     then out ! (k * 4 + c)
                     else blend_channel (out ! (k * 4 + c)) (chan ink c) f
                            (fst (apply_grain rnd gr (hm ! i) n))))"
proof -
  have d: "(k div w * w + k mod w) * 4 = k * 4" by simp
  have b: "k * 4 + 2 < length out" using assms by simp
  show ?thesis
  proof (cases "src_index w h ox oy (k div w) (k mod w)")
    case None
    then show ?thesis by (simp add: composite_pixel_src)
  next
    case (Some i)
    show ?thesis
    proof (cases "fst (apply_grain rnd gr (hm ! i) n) < 0.004")
      case True
      then show ?thesis using Some by (simp add: composite_pixel_src snd_apply_grain)
    next
      case False
      let ?v = "fst (apply_grain rnd gr (hm ! i) n)"
      let ?out' = "blend_pixel out (k * 4) ink f ?v"
      have e: "composite_pixel rnd w h hm ink f gr ox oy (k div w) (k mod w) (out, n)
                 = (?out', n + (if gr > 0 then 1 else 0))"
        using Some False unfolding composite_pixel_src d by (simp add: snd_apply_grain)
      have o: "?out' ! (j * 4 + c) = out ! (j * 4 + c)" if "c < 4" "j \<noteq> k" for j c
      proof -
        have "j * 4 + c < k * 4 \<or> k * 4 + 2 < j * 4 + c" using that by linarith
        then show ?thesis by (rule blend_pixel_other)
      qed
      have s: "?out' ! (k * 4 + c)
                 = (if c \<ge> 3 then out ! (k * 4 + c)
                    else blend_channel (out ! (k * 4 + c)) (chan ink c) f ?v)" if "c < 4" for c
        using b that by (rule blend_pixel_nth)
      show ?thesis
        unfolding e using Some False o s by (simp add: blend_pixel_length)
    qed
  qed
qed

lemma draws_before_Suc:
  "draws_before w h gr ox oy k0 (Suc q)
     = draws_before w h gr ox oy k0 q
       + (if gr > 0 \<and> src_index w h ox oy (q div w) (q mod w) \<noteq> None then 1 else 0)"
  by (simp add: draws_before_def)

lemma layer_value_unfold:
  assumes "q < w * h"
  shows "layer_value rnd w h hm ink f gr ox oy out0 k0 q c
           = (case src_index w h ox oy (q div w) (q mod w) of
                None \<Rightarrow> out0 ! (q * 4 + c)
              | Some i \<Rightarrow>
                  if fst (apply_grain rnd gr (hm ! i) (draws_before w h gr ox oy k0 q)) < 0.004
                     \<or> c \<ge> 3
                  then out0 ! (q * 4 + c)
                  else blend_channel (out0 ! (q * 4 + c)) (chan ink c) f
                         (fst (apply_grain rnd gr (hm ! i) (draws_before w h gr ox oy k0 q))))"
  by (simp add: layer_value_def layer_opacity_def split: option.split)

lemma composite_prefix:
  assumes "length out0 = w * h * 4" "q \<le> w * h"
  shows "\<exists>out. fold (\<lambda>k st. composite_pixel rnd w h hm ink f gr ox oy (k div w) (k mod w) st)
                 [0..<q] (out0, k0)
               = (out, draws_before w h gr ox oy k0 q) \<and>
           length out = length out0 \<and>
           (\<forall>j c. c < 4 \<longrightarrow> out ! (j * 4 + c)
              = (if j < q then layer_value rnd w h hm ink f gr ox oy out0 k0 j c
                 else out0 ! (j * 4 + c)))"
  using assms(2)
proof (induction q)
  case 0
  then show ?case by (simp add: draws_before_def)
next
  case (Suc q)
  then obtain out where
    f: "fold (\<lambda>k st. composite_pixel rnd w h hm ink f gr ox oy (k div w) (k mod w) st)
          [0..<q] (out0, k0) = (out, draws_before w h gr ox oy k0 q)"
    and l: "length out = length out0"
    and v: "\<And>j c. c < 4 \<Longrightarrow> out ! (j * 4 + c)
              = (if j < q then layer_value rnd w h hm ink f gr ox oy out0 k0 j c
                 else out0 ! (j * 4 + c))"
    by auto
  have q: "q < w * h" using Suc.prems by simp
  have lo: "length out = w * h * 4" using l assms(1) by simp
  from composite_pixel_step [OF q lo, of rnd hm ink f gr ox oy "draws_before w h gr ox oy k0 q"]
  obtain out' where
    s: "composite_pixel rnd w h hm ink f gr ox oy (q div w) (q mod w)
          (out, draws_before w h gr ox oy k0 q)
        = (out', draws_before w h gr ox oy k0 q
                 + (if gr > 0 \<and> src_index w h ox oy (q div w) (q mod w) \<noteq> None then 1 else 0))"
    and l': "length out' = length out"
    and other: "\<And>j c. c < 4 \<Longrightarrow> j \<noteq> q \<Longrightarrow> out' ! (j * 4 + c) = out ! (j * 4 + c)"
    and self: "\<And>c. c < 4 \<Longrightarrow> out' ! (q * 4 + c)
              = (case src_index w h ox oy (q div w) (q mod w) of
                   None \<Rightarrow> out ! (q * 4 + c)
                 | Some i \<Rightarrow>
                     if fst (apply_grain rnd gr (hm ! i) (draws_before w h gr ox oy k0 q)) < 0.004
                        \<or> c \<ge> 3
                     then out ! (q * 4 + c)
                     else blend_channel (out ! (q * 4 + c)) (chan ink c) f
                            (fst (apply_grain rnd gr (hm ! i) (draws_before w h gr ox oy k0 q))))"
    by blast
  have "fold (\<lambda>k st. composite_pixel rnd w h hm ink f gr ox oy (k div w) (k mod w) st)
          [0..<Suc q] (out0, k0) = (out', draws_before w h gr ox oy k0 (Suc q))"
    using f s by (simp add: draws_before_Suc)
  moreover have "length out' = length out0" using l l' by simp
  moreover have "out' ! (j * 4 + c)
              = (if j < Suc q then layer_value rnd w h hm ink f gr ox oy out0 k0 j c
                 else out0 ! (j * 4 + c))" if c: "c < 4" for j c
  proof (cases "j = q")
    case True
    have "out ! (q * 4 + c) = out0 ! (q * 4 + c)" using v [OF c, of q] by simp
    then have "out' ! (q * 4 + c) = layer_value rnd w h hm ink f gr ox oy out0 k0 q c"
      using self [OF c] by (simp add: layer_value_unfold [OF q] split: option.split)
    then show ?thesis using True by simp
  next
    case False
    then have "out' ! (j * 4 + c) = out ! (j * 4 + c)" using other [OF c] by simp
    then show ?thesis using v [OF c, of j] False by auto
  qed
  ultimately show ?case by blast
qed

lemma composite_layer_eq:
  assumes "length out0 = w * h * 4"
  shows "\<exists>out. composite_layer rnd w h hm ink f gr ox oy (out0, k0)
               = (out, draws_before w h gr ox oy k0 (w * h)) \<and>
           length out = length out0 \<and>
           (\<forall>j c. j < w * h \<longrightarrow> c < 4 \<longrightarrow>
              out ! (j * 4 + c) = layer_value rnd w h hm ink f gr ox oy out0 k0 j c)"
proof -
  from composite_prefix [OF assms order_refl, of rnd hm ink f gr ox oy k0]
  obtain out where
    "fold (\<lambda>k st. composite_pixel rnd w h hm ink f gr ox oy (k div w) (k mod w) st)
       [0..<w * h] (out0, k0) = (out, draws_before w h gr ox oy k0 (w * h))"
    "length out = length out0"
    "\<And>j c. c < 4 \<Longrightarrow> out ! (j * 4 + c)
              = (if j < w * h then layer_value rnd w h hm ink f gr ox oy out0 k0 j c
                 else out0 ! (j * 4 + c))"
    by blast
  then show ?thesis
    by (simp add: composite_layer_def fold_grid)
qed

lemma to_uint8_clamped_le: "to_uint8_clamped v \<le> 255"
  by (simp add: to_uint8_clamped_def)






lemma fill_paper_prefix:
  assumes "n * 4 \<le> length out0"
  shows "length (fold (\<lambda>i out. out[i * 4 := a0, i * 4 + 1 := a1, i * 4 + 2 := a2, i * 4 + 3 := a3])
                   [0..<n] out0) = length out0 \<and>
         (\<forall>j c. c < 4 \<longrightarrow>
            fold (\<lambda>i out. out[i * 4 := a0, i * 4 + 1 := a1, i * 4 + 2 := a2, i * 4 + 3 := a3])
              [0..<n] out0 ! (j * 4 + c)
            = (if j < n then [a0, a1, a2, a3] ! c else out0 ! (j * 4 + c)))"
  using assms
proof (induction n)
  case 0
  then show ?case by simp
next
  case (Suc n)
  let ?o = "fold (\<lambda>i out. out[i * 4 := a0, i * 4 + 1 := a1, i * 4 + 2 := a2, i * 4 + 3 := a3])
              [0..<n] out0"
  have l: "length ?o = length out0"
    and v: "\<And>j c. c < 4 \<Longrightarrow> ?o ! (j * 4 + c) = (if j < n then [a0, a1, a2, a3] ! c else out0 ! (j * 4 + c))"
    using Suc by auto
  have b: "n * 4 + 3 < length ?o" using Suc.prems l by simp
  have e: "fold (\<lambda>i out. out[i * 4 := a0, i * 4 + 1 := a1, i * 4 + 2 := a2, i * 4 + 3 := a3])
              [0..<Suc n] out0 = ?o[n * 4 := a0, n * 4 + 1 := a1, n * 4 + 2 := a2, n * 4 + 3 := a3]"
    by simp
  have "?o[n * 4 := a0, n * 4 + 1 := a1, n * 4 + 2 := a2, n * 4 + 3 := a3] ! (j * 4 + c)
          = (if j < Suc n then [a0, a1, a2, a3] ! c else out0 ! (j * 4 + c))" if c: "c < 4" for j c
  proof (cases "j = n")
    case True
    consider "c = 0" | "c = 1" | "c = 2" | "c = 3" using c by linarith
    then show ?thesis using b True by cases simp_all
  next
    case False
    then have "j * 4 + c \<noteq> n * 4" "j * 4 + c \<noteq> n * 4 + 1" "j * 4 + c \<noteq> n * 4 + 2"
      "j * 4 + c \<noteq> n * 4 + 3"
      using c by linarith+
    then have "?o[n * 4 := a0, n * 4 + 1 := a1, n * 4 + 2 := a2, n * 4 + 3 := a3] ! (j * 4 + c)
                 = ?o ! (j * 4 + c)"
      by (simp add: nth_list_update)
    then show ?thesis using v [OF c, of j] False by auto
  qed
  then show ?case unfolding e using l by simp
qed

lemma fill_paper_eq:
  assumes "length out0 = w * h * 4"
  shows "length (fill_paper paper w h out0) = w * h * 4"
    and "q < w * h \<Longrightarrow> c < 4 \<Longrightarrow>
         fill_paper paper w h out0 ! (q * 4 + c)
           = [to_uint8_clamped (int (rgb_r paper)), to_uint8_clamped (int (rgb_g paper)),
              to_uint8_clamped (int (rgb_b paper)), 255] ! c"
  using fill_paper_prefix [of "w * h" out0 "to_uint8_clamped (int (rgb_r paper))"
          "to_uint8_clamped (int (rgb_g paper))" "to_uint8_clamped (int (rgb_b paper))" 255] assms
  by (simp_all add: fill_paper_def Let_def)

subsection \<open>The output buffer holds bytes\<close>

lemma bytes_okI:
  assumes "length out = n * 4" "\<And>j c. j < n \<Longrightarrow> c < 4 \<Longrightarrow> out ! (j * 4 + c) \<le> 255"
  shows "bytes_ok out"
  unfolding bytes_ok_def list_all_length
proof (intro allI impI)
  fix m assume "m < length out"
  then have "m div 4 < n" "m mod 4 < 4" using assms(1) by simp_all
  from assms(2) [OF this] show "out ! m \<le> 255" by simp
qed

lemma fill_paper_bytes_ok: "bytes_ok (fill_paper paper w h (replicate (w * h * 4) 0))"
proof (rule bytes_okI)
  show "length (fill_paper paper w h (replicate (w * h * 4) 0)) = w * h * 4"
    by (rule fill_paper_eq(1)) simp
next
  fix j c assume jc: "j < w * h" "c < (4::nat)"
  then consider "c = 0" | "c = 1" | "c = 2" | "c = 3" by linarith
  then show "fill_paper paper w h (replicate (w * h * 4) 0) ! (j * 4 + c) \<le> 255"
    using fill_paper_eq(2) [of "replicate (w * h * 4) 0" w h j c paper] jc
    by cases (simp_all add: to_uint8_clamped_le)
qed

lemma composite_layer_bytes_ok:
  assumes "length out0 = w * h * 4" "bytes_ok out0"
  shows "bytes_ok (fst (composite_layer rnd w h hm ink f gr ox oy (out0, k0)))"
proof -
  obtain out where
    e: "composite_layer rnd w h hm ink f gr ox oy (out0, k0)
          = (out, draws_before w h gr ox oy k0 (w * h))"
    and l: "length out = length out0"
    and v: "\<And>j c. j < w * h \<Longrightarrow> c < 4 \<Longrightarrow>
              out ! (j * 4 + c) = layer_value rnd w h hm ink f gr ox oy out0 k0 j c"
    using composite_layer_eq [OF assms(1), of rnd hm ink f gr ox oy k0] by blast
  have "out ! (j * 4 + c) \<le> 255" if "j < w * h" "c < 4" for j c
  proof -
    have "j * 4 + c < length out0" using that assms(1) by simp
    then have "out0 ! (j * 4 + c) \<le> 255"
      using assms(2) by (simp add: bytes_ok_def list_all_length)
    then show ?thesis
      unfolding v [OF that] layer_value_def blend_channel_def
      by (simp add: to_uint8_clamped_le split: option.split)
  qed
  then have "bytes_ok out" using l assms(1) by (intro bytes_okI [of out "w * h"]) simp_all
  then show ?thesis by (simp add: e)
qed

section \<open>Independence of the random source\<close>

lemma composite_layer_no_grain:
  assumes "gr = 0"
  shows "composite_layer rnd1 w h hm ink f gr ox oy st = composite_layer rnd2 w h hm ink f gr ox oy st"
proof -
  have "composite_pixel rnd1 w h hm ink f gr ox oy y x s = composite_pixel rnd2 w h hm ink f gr ox oy y x s"
    for y x s
    using assms by (cases s) (simp add: composite_pixel_def apply_grain_def Let_def)
  then show ?thesis by (simp add: composite_layer_def)
qed

lemma render_layer_no_random:
  assumes "grain options = 0" "misregistration options = 0"
  shows "render_layer rnd1 options w h inkRgbs densityMaps ci st
           = render_layer rnd2 options w h inkRgbs densityMaps ci st"
proof -
  have d: "draw_offset rnd 0 k = (0, k)" for rnd k
    by (simp add: draw_offset_def)
  show ?thesis
    using assms composite_layer_no_grain [of 0 rnd1 _ _ _ _ _ _ _ _ rnd2]
    by (cases st) (simp add: render_layer_def Let_def d)
qed

section \<open>Facts about processRisograph\<close>

lemma layer_value_alpha: "layer_value rnd w h hm ink f gr ox oy out0 k0 j 3 = out0 ! (j * 4 + 3)"
  by (simp add: layer_value_def split: option.split)

lemma render_layer_inv:
  assumes "length out = w * h * 4"
  shows "\<exists>out' k'. render_layer rnd options w h inkRgbs densityMaps ci (out, k) = (out', k') \<and>
           length out' = w * h * 4 \<and> (\<forall>q<w * h. out' ! (q * 4 + 3) = out ! (q * 4 + 3))"
proof -
  obtain ox k1 where o1: "draw_offset rnd (misregistration options) k = (ox, k1)"
    by (cases "draw_offset rnd (misregistration options) k")
  obtain oy k2 where o2: "draw_offset rnd (misregistration options) k1 = (oy, k2)"
    by (cases "draw_offset rnd (misregistration options) k1")
  have "\<exists>hm ink f. render_layer rnd options w h inkRgbs densityMaps ci (out, k)
          = composite_layer rnd w h hm ink f (grain options) ox oy (out, k2)"
    unfolding render_layer_def Let_def o1 o2 prod.case by (intro exI) (rule refl)
  then obtain hm ink f where
    r: "render_layer rnd options w h inkRgbs densityMaps ci (out, k)
          = composite_layer rnd w h hm ink f (grain options) ox oy (out, k2)"
    by blast
  from composite_layer_eq [OF assms, of rnd hm ink f "grain options" ox oy k2]
  obtain out' where
    "composite_layer rnd w h hm ink f (grain options) ox oy (out, k2)
       = (out', draws_before w h (grain options) ox oy k2 (w * h))"
    "length out' = length out"
    "\<And>j c. j < w * h \<Longrightarrow> c < 4 \<Longrightarrow>
        out' ! (j * 4 + c) = layer_value rnd w h hm ink f (grain options) ox oy out k2 j c"
    by blast
  then show ?thesis
    using r assms by (simp add: layer_value_alpha)
qed

lemma fold_render_layer_inv:
  assumes "length out = w * h * 4"
  shows "\<exists>out' k'. fold (render_layer rnd options w h inkRgbs densityMaps) layers (out, k) = (out', k') \<and>
           length out' = w * h * 4 \<and> (\<forall>q<w * h. out' ! (q * 4 + 3) = out ! (q * 4 + 3))"
  using assms
proof (induction layers arbitrary: out k)
  case Nil
  then show ?case by simp
next
  case (Cons ci layers)
  from render_layer_inv [OF Cons.prems, of rnd options inkRgbs densityMaps ci k]
  obtain out1 k1 where
    s: "render_layer rnd options w h inkRgbs densityMaps ci (out, k) = (out1, k1)"
    and l: "length out1 = w * h * 4"
    and a: "\<forall>q<w * h. out1 ! (q * 4 + 3) = out ! (q * 4 + 3)"
    by blast
  from Cons.IH [OF l, of k1]
  obtain out' k' where
    "fold (render_layer rnd options w h inkRgbs densityMaps) layers (out1, k1) = (out', k')"
    "length out' = w * h * 4" "\<forall>q<w * h. out' ! (q * 4 + 3) = out1 ! (q * 4 + 3)"
    by blast
  then show ?case using s a by simp
qed

lemma canvas_after:
  "putImageData (set_canvas_height (set_canvas_width cv w) h) out
     = \<lparr> c_width = w, c_height = h, c_pixels = out \<rparr>"
  by (simp add: putImageData_def set_canvas_height_def set_canvas_width_def)

lemma processRisograph_positive_area:
  assumes "bitmap_ok img" "0 < width img" "0 < height img"
  shows "\<exists>maps. decomposeColors img (map color (colors options)) WHITE = Some maps \<and>
           processRisograph rnd img cv options
             = Inr \<lparr> c_width = width img, c_height = height img,
                     c_pixels = fst (fold (render_layer rnd options (width img) (height img)
                                             (map color (colors options)) maps)
                                       [0..<length (colors options)]
                                       (fill_paper (paper_of options) (width img) (height img)
                                          (replicate (width img * height img * 4) 0), 0)) \<rparr>"
proof -
  obtain maps where m: "decomposeColors img (map color (colors options)) WHITE = Some maps"
    using decomposeColors_eq [OF assms(1)] by blast
  have c: "createImageData (width img) (height img) = Inr (replicate (width img * height img * 4) 0)"
    using assms(2,3) by (simp add: createImageData_def)
  show ?thesis
    using m c by (simp add: processRisograph_def Let_def canvas_after paper_of_def)
qed

lemma processRisograph_renders:
  assumes "bitmap_ok img" "0 < width img" "0 < height img"
  shows "\<exists>pixels. processRisograph rnd img cv options
                     = Inr \<lparr> c_width = width img, c_height = height img, c_pixels = pixels \<rparr> \<and>
           length pixels = width img * height img * 4 \<and>
           (\<forall>q<width img * height img. pixels ! (q * 4 + 3) = 255)"
proof -
  let ?w = "width img" and ?h = "height img"
  let ?out = "fill_paper (paper_of options) ?w ?h (replicate (?w * ?h * 4) 0)"
  obtain maps where
    p: "processRisograph rnd img cv options
          = Inr \<lparr> c_width = ?w, c_height = ?h,
                  c_pixels = fst (fold (render_layer rnd options ?w ?h (map color (colors options)) maps)
                                    [0..<length (colors options)] (?out, 0)) \<rparr>"
    using processRisograph_positive_area [OF assms] by blast
  have l: "length ?out = ?w * ?h * 4" by (rule fill_paper_eq(1)) simp
  have a: "?out ! (q * 4 + 3) = 255" if "q < ?w * ?h" for q
    using fill_paper_eq(2) [of "replicate (?w * ?h * 4) 0" ?w ?h q 3 "paper_of options"] that by simp
  from fold_render_layer_inv [OF l, of rnd options "map color (colors options)" maps
         "[0..<length (colors options)]" 0]
  obtain out' k' where
    "fold (render_layer rnd options ?w ?h (map color (colors options)) maps)
       [0..<length (colors options)] (?out, 0) = (out', k')"
    "length out' = ?w * ?h * 4" "\<forall>q<?w * ?h. out' ! (q * 4 + 3) = ?out ! (q * 4 + 3)"
    by blast
  then show ?thesis using p a by simp
qed


section \<open>The claims\<close>

subsection \<open>C1\<close>

text \<open>
  C1. For a bitmap with four bytes per pixel, any ink list and any reference colour,
  \<open>decomposeColors\<close> returns maps (no division by zero and no read out of range happens on
  the way, so no NaN or infinity arises), one per ink and one value per pixel; every value
  lies in \<open>[0, 1]\<close>, and it is \<open>0\<close> for every ink where the pixel's alpha is below \<open>0.01\<close>.
\<close>

theorem decomposeColors_densities_in_unit_range:
  assumes "bitmap_ok img"
  shows "\<exists>maps. decomposeColors img inks paper = Some maps \<and> length maps = length inks \<and>
           (\<forall>i<length inks. length (maps ! i) = width img * height img \<and>
              (\<forall>p<width img * height img.
                 0 \<le> maps ! i ! p \<and> maps ! i ! p \<le> 1 \<and>
                 (alpha_at img p < 0.01 \<longrightarrow> maps ! i ! p = 0)))"
proof -
  let ?maps = "map (\<lambda>i. map (\<lambda>q. pixel_densities img inks paper q ! i)
                 [0..<width img * height img]) [0..<length inks]"
  have r: "0 \<le> pixel_densities img inks paper p ! i \<and> pixel_densities img inks paper p ! i \<le> 1"
    if "i < length inks" for i p
    using pixel_densities_unit [of img inks paper p] that
    by (simp add: unit_list_def pixel_densities_length)
  have z: "pixel_densities img inks paper p ! i = 0"
    if "i < length inks" "alpha_at img p < 0.01" for i p
    using that by (simp add: pixel_densities_def)
  have "decomposeColors img inks paper = Some ?maps"
    by (rule decomposeColors_eq [OF assms])
  moreover have "length ?maps = length inks" by simp
  moreover have "\<forall>i<length inks. length (?maps ! i) = width img * height img \<and>
              (\<forall>p<width img * height img.
                 0 \<le> ?maps ! i ! p \<and> ?maps ! i ! p \<le> 1 \<and>
                 (alpha_at img p < 0.01 \<longrightarrow> ?maps ! i ! p = 0))"
    using r z by simp
  ultimately show ?thesis by blast
qed

theorem decomposeColors_densities_in_unit_range_witness:
  "bitmap_ok two_pixel_image \<and> alpha_at two_pixel_image 1 < 0.01 \<and>
   (\<exists>maps. decomposeColors two_pixel_image [RGB 0 120 191, RGB 0 120 191] WHITE = Some maps \<and>
      length maps = 2 \<and> length (maps ! 1) = 2 \<and>
      0 \<le> maps ! 1 ! 0 \<and> maps ! 1 ! 0 \<le> 1 \<and> maps ! 1 ! 1 = 0)"
proof -
  have ok: "bitmap_ok two_pixel_image"
    by (simp add: bitmap_ok_def two_pixel_image_def)
  have al: "alpha_at two_pixel_image 1 < 0.01"
    by (simp add: alpha_at_def two_pixel_image_def)
  have wh: "width two_pixel_image * height two_pixel_image = 2"
    by (simp add: two_pixel_image_def)
  obtain maps where m: "decomposeColors two_pixel_image [RGB 0 120 191, RGB 0 120 191] WHITE = Some maps"
      "length maps = length [RGB 0 120 191, RGB 0 120 191]"
    and a: "\<forall>i<length [RGB 0 120 191, RGB 0 120 191].
              length (maps ! i) = width two_pixel_image * height two_pixel_image \<and>
              (\<forall>p<width two_pixel_image * height two_pixel_image.
                 0 \<le> maps ! i ! p \<and> maps ! i ! p \<le> 1 \<and>
                 (alpha_at two_pixel_image p < 0.01 \<longrightarrow> maps ! i ! p = 0))"
    using decomposeColors_densities_in_unit_range
            [OF ok, of "[RGB 0 120 191, RGB 0 120 191]" WHITE]
    by blast
  from a have a1: "length (maps ! 1) = 2 \<and>
      (\<forall>p<2. 0 \<le> maps ! 1 ! p \<and> maps ! 1 ! p \<le> 1 \<and>
              (alpha_at two_pixel_image p < 0.01 \<longrightarrow> maps ! 1 ! p = 0))"
    by (simp add: wh)
  then have "0 \<le> maps ! 1 ! 0 \<and> maps ! 1 ! 0 \<le> 1" "maps ! 1 ! 1 = 0"
    using al by simp_all
  then show ?thesis using ok al m a1 by simp
qed

subsection \<open>C2\<close>

text \<open>
  C2. For a pixel with alpha at least \<open>0.01\<close> the stored density of every ink is the
  corresponding entry of the result of the specification's solver: the clamped projections
  as initial guess, then exactly twelve Gauss-Seidel sweeps, with no convergence test. The
  flat array \<open>dotInkInk\<close>, computed from the inks alone, holds the Gram matrix, which is
  symmetric.
\<close>

theorem decomposeColors_is_twelve_gauss_seidel_sweeps:
  assumes "bitmap_ok img" and "p < width img * height img" and "alpha_at img p \<ge> 0.01"
    and "i < length inks"
  shows "\<exists>maps. decomposeColors img inks paper = Some maps \<and>
           maps ! i ! p
             = ((spec_sweep (map (inkDelta paper) inks) (target img paper p) ^^ 12)
                  (spec_init (map (inkDelta paper) inks) (target img paper p))) ! i \<and>
           (\<forall>j<length inks.
              dotInkInk_of (map (inkDelta paper) inks) ! (i * length inks + j)
                = dot3 (inkDelta paper (inks ! i)) (inkDelta paper (inks ! j)) \<and>
              dotInkInk_of (map (inkDelta paper) inks) ! (i * length inks + j)
                = dotInkInk_of (map (inkDelta paper) inks) ! (j * length inks + i))"
proof -
  let ?a = "map (inkDelta paper) inks"
  have g: "dotInkInk_of ?a ! (k * length inks + j) = spec_gram ?a k j"
    if "k < length inks" "j < length inks" for k j
    using dotInkInk_of_nth [of k ?a j] that by simp
  have "pixel_densities img inks paper p = spec_solve ?a (target img paper p)"
    using assms(3) by (simp add: pixel_densities_def)
  then have "map (\<lambda>i. map (\<lambda>q. pixel_densities img inks paper q ! i)
                 [0..<width img * height img]) [0..<length inks] ! i ! p
             = (spec_sweep ?a (target img paper p) ^^ 12) (spec_init ?a (target img paper p)) ! i"
    using assms(2,4) by (simp add: spec_solve_def)
  moreover have "\<forall>j<length inks.
              dotInkInk_of ?a ! (i * length inks + j)
                = dot3 (inkDelta paper (inks ! i)) (inkDelta paper (inks ! j)) \<and>
              dotInkInk_of ?a ! (i * length inks + j) = dotInkInk_of ?a ! (j * length inks + i)"
  proof (intro allI impI conjI)
    fix j assume j: "j < length inks"
    show "dotInkInk_of ?a ! (i * length inks + j)
            = dot3 (inkDelta paper (inks ! i)) (inkDelta paper (inks ! j))"
      using assms(4) j by (simp add: g spec_gram_def)
    show "dotInkInk_of ?a ! (i * length inks + j) = dotInkInk_of ?a ! (j * length inks + i)"
      using assms(4) j g [of i j] g [of j i] gram_sym [of ?a i j] by simp
  qed
  ultimately show ?thesis
    using decomposeColors_eq [OF assms(1), of inks paper] by blast
qed

theorem decomposeColors_is_twelve_gauss_seidel_sweeps_witness:
  "bitmap_ok two_pixel_image \<and> (0::nat) < width two_pixel_image * height two_pixel_image \<and>
   alpha_at two_pixel_image 0 \<ge> 0.01 \<and>
   (\<exists>maps. decomposeColors two_pixel_image [RGB 0 120 191, RGB 255 72 176] WHITE = Some maps \<and>
      maps ! 1 ! 0
        = ((spec_sweep (map (inkDelta WHITE) [RGB 0 120 191, RGB 255 72 176])
              (target two_pixel_image WHITE 0) ^^ 12)
             (spec_init (map (inkDelta WHITE) [RGB 0 120 191, RGB 255 72 176])
                (target two_pixel_image WHITE 0))) ! 1) \<and>
   dotInkInk_of (map (inkDelta WHITE) [RGB 0 120 191, RGB 255 72 176]) ! 2
     = dot3 (inkDelta WHITE (RGB 255 72 176)) (inkDelta WHITE (RGB 0 120 191)) \<and>
   dotInkInk_of (map (inkDelta WHITE) [RGB 0 120 191, RGB 255 72 176]) ! 2
     = dotInkInk_of (map (inkDelta WHITE) [RGB 0 120 191, RGB 255 72 176]) ! 1"
proof -
  let ?inks = "[RGB 0 120 191, RGB 255 72 176]"
  have ok: "bitmap_ok two_pixel_image"
    by (simp add: bitmap_ok_def two_pixel_image_def)
  have al: "alpha_at two_pixel_image 0 \<ge> 0.01"
    by (simp add: alpha_at_def two_pixel_image_def)
  have wh: "0 < width two_pixel_image * height two_pixel_image"
    by (simp add: two_pixel_image_def)
  have i: "1 < length ?inks" by simp
  obtain maps where m: "decomposeColors two_pixel_image ?inks WHITE = Some maps"
      "maps ! 1 ! 0
        = ((spec_sweep (map (inkDelta WHITE) ?inks) (target two_pixel_image WHITE 0) ^^ 12)
             (spec_init (map (inkDelta WHITE) ?inks) (target two_pixel_image WHITE 0))) ! 1"
    and g: "\<forall>j<length ?inks.
              dotInkInk_of (map (inkDelta WHITE) ?inks) ! (1 * length ?inks + j)
                = dot3 (inkDelta WHITE (?inks ! 1)) (inkDelta WHITE (?inks ! j)) \<and>
              dotInkInk_of (map (inkDelta WHITE) ?inks) ! (1 * length ?inks + j)
                = dotInkInk_of (map (inkDelta WHITE) ?inks) ! (j * length ?inks + 1)"
    using decomposeColors_is_twelve_gauss_seidel_sweeps [OF ok wh al i, of WHITE] by blast
  have "(0::nat) < length ?inks" by simp
  with g have "dotInkInk_of (map (inkDelta WHITE) ?inks) ! (1 * length ?inks + 0)
                = dot3 (inkDelta WHITE (?inks ! 1)) (inkDelta WHITE (?inks ! 0)) \<and>
              dotInkInk_of (map (inkDelta WHITE) ?inks) ! (1 * length ?inks + 0)
                = dotInkInk_of (map (inkDelta WHITE) ?inks) ! (0 * length ?inks + 1)"
    by blast
  then have "dotInkInk_of (map (inkDelta WHITE) ?inks) ! 2
               = dot3 (inkDelta WHITE (RGB 255 72 176)) (inkDelta WHITE (RGB 0 120 191))"
    "dotInkInk_of (map (inkDelta WHITE) ?inks) ! 2 = dotInkInk_of (map (inkDelta WHITE) ?inks) ! 1"
    by (simp_all add: numeral_2_eq_2)
  then show ?thesis using ok al wh m by blast
qed

subsection \<open>C3\<close>



subsection \<open>C4\<close>



subsection \<open>C5\<close>

text \<open>
  C5, as stated, fails for an ink equal to the reference white: the projection formula has
  no value there (the divisor is zero), while the source stores density \<open>0\<close>.
\<close>

theorem single_ink_projection_counterexample:
  "alpha_at black_pixel_image 0 \<ge> 0.01 \<and>
   decomposeColors black_pixel_image [WHITE] WHITE = Some [[0]] \<and>
   spec_projection (target black_pixel_image WHITE 0) (inkDelta WHITE WHITE) = None"
proof -
  have ok: "bitmap_ok black_pixel_image"
    by (simp add: bitmap_ok_def black_pixel_image_def)
  have al: "alpha_at black_pixel_image 0 \<ge> 0.01"
    by (simp add: alpha_at_def black_pixel_image_def)
  have z: "dot3 (inkDelta WHITE WHITE) (inkDelta WHITE WHITE) = 0"
    by (simp add: inkDelta_def)
  have "pixel_densities black_pixel_image [WHITE] WHITE 0 = [0]"
    using al by (simp add: pixel_densities_def spec_solve_single z)
  then have "decomposeColors black_pixel_image [WHITE] WHITE = Some [[0]]"
    using decomposeColors_eq [OF ok, of "[WHITE]" WHITE] by (simp add: black_pixel_image_def)
  moreover have "spec_projection (target black_pixel_image WHITE 0) (inkDelta WHITE WHITE) = None"
    by (simp add: spec_projection_def js_div_def z)
  ultimately show ?thesis using al by simp
qed

text \<open>
  C5, amended. With exactly one ink and a pixel of alpha at least \<open>0.01\<close>, the stored density
  is the value of the projection formula whenever the ink differs from the reference colour
  (then \<open>dot(absorption, absorption) > 1e-10\<close>); for an ink equal to the reference colour it
  is \<open>0\<close>.
\<close>

theorem single_ink_is_projection:
  assumes "bitmap_ok img" and "p < width img * height img" and "alpha_at img p \<ge> 0.01"
  shows "\<exists>maps. decomposeColors img [ink] paper = Some maps \<and>
           (ink \<noteq> paper \<longrightarrow>
              spec_projection (target img paper p) (inkDelta paper ink) = Some (maps ! 0 ! p)) \<and>
           (ink = paper \<longrightarrow> maps ! 0 ! p = 0)"
proof -
  let ?a = "inkDelta paper ink" and ?t = "target img paper p"
  let ?maps = "map (\<lambda>i. map (\<lambda>q. pixel_densities img [ink] paper q ! i)
                 [0..<width img * height img]) [0..<length [ink]]"
  have v: "?maps ! 0 ! p = (if dot3 ?a ?a > 1 / 10 ^ 10 then clamp01 (dot3 ?a ?t / dot3 ?a ?a) else 0)"
    using assms(2,3) by (simp add: pixel_densities_def spec_solve_single)
  have "spec_projection ?t ?a = Some (?maps ! 0 ! p)" if "ink \<noteq> paper"
  proof -
    have "dot3 ?a ?a > 1 / 10 ^ 10" using that inkDelta_self_dot [of paper ink] by blast
    then show ?thesis
      unfolding v by (simp add: spec_projection_def js_div_def dot3_commute [of ?t])
  qed
  moreover have "?maps ! 0 ! p = 0" if "ink = paper"
    unfolding v using that inkDelta_self_dot [of paper ink] by simp
  ultimately show ?thesis
    using decomposeColors_eq [OF assms(1), of "[ink]" paper] by blast
qed

theorem single_ink_is_projection_witness:
  "bitmap_ok black_pixel_image \<and> (0::nat) < width black_pixel_image * height black_pixel_image \<and>
   alpha_at black_pixel_image 0 \<ge> 0.01 \<and> RGB 0 0 0 \<noteq> WHITE \<and>
   (\<exists>maps. decomposeColors black_pixel_image [RGB 0 0 0] WHITE = Some maps \<and>
      spec_projection (target black_pixel_image WHITE 0) (inkDelta WHITE (RGB 0 0 0))
        = Some (maps ! 0 ! 0)) \<and>
   (\<exists>maps. decomposeColors black_pixel_image [WHITE] WHITE = Some maps \<and> maps ! 0 ! 0 = 0)"
proof -
  have ok: "bitmap_ok black_pixel_image"
    by (simp add: bitmap_ok_def black_pixel_image_def)
  have al: "alpha_at black_pixel_image 0 \<ge> 0.01"
    by (simp add: alpha_at_def black_pixel_image_def)
  have wh: "0 < width black_pixel_image * height black_pixel_image"
    by (simp add: black_pixel_image_def)
  have ne: "RGB 0 0 0 \<noteq> WHITE" by (simp add: WHITE_def)
  show ?thesis
    using single_ink_is_projection [OF ok wh al, of "RGB 0 0 0" WHITE]
          single_ink_is_projection [OF ok wh al, of WHITE WHITE] ok al wh ne
    by blast
qed

subsection \<open>C6\<close>

text \<open>
  C6. With an empty ink list, a render of any bitmap of positive area (four bytes per
  pixel) raises no error: the canvas takes the dimensions of the bitmap and every pixel is
  the paper colour (the configured one, or the default) with alpha \<open>255\<close>.
\<close>

theorem empty_ink_list_renders_paper:
  assumes "bitmap_ok img" and "0 < width img" and "0 < height img"
    and "colors options = []" and "rgb_ok (paper_of options)"
  shows "\<exists>pixels. processRisograph rnd img cv options
                     = Inr \<lparr> c_width = width img, c_height = height img, c_pixels = pixels \<rparr> \<and>
           length pixels = width img * height img * 4 \<and>
           (\<forall>q<width img * height img.
              pixels ! (q * 4) = rgb_r (paper_of options) \<and>
              pixels ! (q * 4 + 1) = rgb_g (paper_of options) \<and>
              pixels ! (q * 4 + 2) = rgb_b (paper_of options) \<and>
              pixels ! (q * 4 + 3) = 255)"
proof -
  let ?w = "width img" and ?h = "height img"
  let ?out = "fill_paper (paper_of options) ?w ?h (replicate (?w * ?h * 4) 0)"
  have p: "processRisograph rnd img cv options
             = Inr \<lparr> c_width = ?w, c_height = ?h, c_pixels = ?out \<rparr>"
    using processRisograph_positive_area [OF assms(1-3), of options rnd cv] assms(4) by auto
  have l: "length ?out = ?w * ?h * 4" by (rule fill_paper_eq(1)) simp
  have c: "to_uint8_clamped (int (rgb_r (paper_of options))) = rgb_r (paper_of options)"
    "to_uint8_clamped (int (rgb_g (paper_of options))) = rgb_g (paper_of options)"
    "to_uint8_clamped (int (rgb_b (paper_of options))) = rgb_b (paper_of options)"
    using assms(5) by (simp_all add: rgb_ok_def to_uint8_clamped_def)
  have v: "?out ! (q * 4 + c)
             = [rgb_r (paper_of options), rgb_g (paper_of options), rgb_b (paper_of options), 255] ! c"
    if "q < ?w * ?h" "c < 4" for q c
    using fill_paper_eq(2) [of "replicate (?w * ?h * 4) 0" ?w ?h q c "paper_of options"] that
    by (simp add: c)
  have "\<forall>q<?w * ?h.
              ?out ! (q * 4) = rgb_r (paper_of options) \<and>
              ?out ! (q * 4 + 1) = rgb_g (paper_of options) \<and>
              ?out ! (q * 4 + 2) = rgb_b (paper_of options) \<and>
              ?out ! (q * 4 + 3) = 255"
    using v [of _ 0] v [of _ 1] v [of _ 2] v [of _ 3] by simp
  then show ?thesis using p l by blast
qed

theorem empty_ink_list_renders_paper_witness:
  "bitmap_ok black_pixel_image \<and> 0 < width black_pixel_image \<and> 0 < height black_pixel_image \<and>
   colors no_ink_options = [] \<and> rgb_ok (paper_of no_ink_options) \<and>
   (\<exists>pixels. processRisograph high_draws black_pixel_image small_canvas no_ink_options
                = Inr \<lparr> c_width = 1, c_height = 1, c_pixels = pixels \<rparr> \<and>
      length pixels = 4 \<and>
      pixels ! 0 = 250 \<and> pixels ! 1 = 250 \<and> pixels ! 2 = 240 \<and> pixels ! 3 = 255)"
proof -
  have h: "bitmap_ok black_pixel_image" "0 < width black_pixel_image"
    "0 < height black_pixel_image" "colors no_ink_options = []" "rgb_ok (paper_of no_ink_options)"
    by (simp_all add: bitmap_ok_def black_pixel_image_def no_ink_options_def rgb_ok_def paper_of_def)
  have p: "paper_of no_ink_options = RGB 250 250 240"
    by (simp add: paper_of_def no_ink_options_def)
  have d: "width black_pixel_image = 1" "height black_pixel_image = 1"
    by (simp_all add: black_pixel_image_def)
  show ?thesis
    using empty_ink_list_renders_paper [OF h, of high_draws small_canvas] h
    by (simp add: p d numeral_2_eq_2)
qed

subsection \<open>C7\<close>

text \<open>
  C7, as stated, fails: with dot pitch \<open>0\<close> in AM mode the render of one black pixel with
  one black ink raises nothing and inks the pixel (the effective pitch is \<open>1\<close>).
\<close>

theorem zero_dot_pitch_counterexample:
  "dotSize zero_pitch_options \<le> 0 \<and>
   processRisograph zero_draws black_pixel_image small_canvas zero_pitch_options
     = Inr \<lparr> c_width = 1, c_height = 1, c_pixels = [37, 36, 35, 255] \<rparr>"
proof -
  have ok: "bitmap_ok black_pixel_image"
    by (simp add: bitmap_ok_def black_pixel_image_def)
  have a: "inkDelta WHITE (RGB 0 0 0) = (1, 1, 1)"
    by (simp add: inkDelta_def WHITE_def)
  have t: "target black_pixel_image WHITE 0 = (1, 1, 1)"
    by (simp add: target_def alpha_at_def black_pixel_image_def WHITE_def)
  have "pixel_densities black_pixel_image [RGB 0 0 0] WHITE 0 = [1]"
    by (simp add: pixel_densities_def spec_solve_single a t clamp01_def)
       (simp add: alpha_at_def black_pixel_image_def)
  then have m: "decomposeColors black_pixel_image [RGB 0 0 0] WHITE = Some [[1]]"
    using decomposeColors_eq [OF ok, of "[RGB 0 0 0]" WHITE] by (simp add: black_pixel_image_def)
  have hm: "applyHalftone [1] 1 1 \<lparr>h_dotSize = 0, h_angle = 0, h_density = None, h_mode = None\<rparr> = [1]"
    by (simp add: applyHalftone_def Let_def halftoneAt_def js_rem1_def js_round_def)
  have rep: "replicate 4 (0::nat) = [0, 0, 0, 0]"
    by (simp add: eval_nat_numeral)
  have paper: "fill_paper DEFAULT_PAPER 1 1 (replicate 4 0) = [245, 240, 232, 255]"
    unfolding rep
    by (simp add: fill_paper_def Let_def DEFAULT_PAPER_def to_uint8_clamped_def)
  have blend: "blend_pixel [245, 240, 232, 255] 0 (RGB 0 0 0) (17 / 20) 1 = [37, 36, 35, 255]"
    by (simp add: blend_pixel_def Let_def js_round_def to_uint8_clamped_def)
  have layer: "composite_layer zero_draws 1 1 [1] (RGB 0 0 0) (17 / 20) 0 0 0 ([245, 240, 232, 255], 0)
                 = ([37, 36, 35, 255], 0)"
    by (simp add: composite_layer_def composite_pixel_def Let_def apply_grain_def blend)
  have r: "render_layer zero_draws zero_pitch_options 1 1 [RGB 0 0 0] [[1]] 0 ([245, 240, 232, 255], 0)
             = ([37, 36, 35, 255], 0)"
    by (simp add: render_layer_def Let_def zero_pitch_options_def hm draw_offset_def layer
          del: One_nat_def)
  have "processRisograph zero_draws black_pixel_image small_canvas zero_pitch_options
          = Inr \<lparr> c_width = 1, c_height = 1, c_pixels = [37, 36, 35, 255] \<rparr>"
    using m r paper
    by (simp add: processRisograph_def Let_def zero_pitch_options_def black_pixel_image_def
          createImageData_def canvas_after del: One_nat_def)
  then show ?thesis by (simp add: zero_pitch_options_def)
qed

text \<open>
  C7, amended. The pipeline does not check the dot pitch. For every invocation with a
  non-positive dot pitch on a bitmap of positive area (four bytes per pixel), the render
  raises no error and leaves on the canvas a bitmap of the input's dimensions.
\<close>

theorem non_positive_dot_pitch_is_rendered:
  assumes "dotSize options \<le> 0" and "bitmap_ok img" and "0 < width img" and "0 < height img"
  shows "\<exists>pixels. processRisograph rnd img cv options
                     = Inr \<lparr> c_width = width img, c_height = height img, c_pixels = pixels \<rparr> \<and>
           length pixels = width img * height img * 4"
  using processRisograph_renders [OF assms(2-4), of rnd cv options] by blast

theorem non_positive_dot_pitch_is_rendered_witness:
  "dotSize zero_pitch_options \<le> 0 \<and> bitmap_ok two_pixel_image \<and>
   0 < width two_pixel_image \<and> 0 < height two_pixel_image \<and>
   (\<exists>pixels. processRisograph zero_draws two_pixel_image small_canvas zero_pitch_options
                = Inr \<lparr> c_width = 2, c_height = 1, c_pixels = pixels \<rparr> \<and>
      length pixels = 8)"
proof -
  have h: "dotSize zero_pitch_options \<le> 0" "bitmap_ok two_pixel_image"
    "0 < width two_pixel_image" "0 < height two_pixel_image"
    by (simp_all add: zero_pitch_options_def bitmap_ok_def two_pixel_image_def)
  have d: "width two_pixel_image = 2" "height two_pixel_image = 1"
    by (simp_all add: two_pixel_image_def)
  show ?thesis
    using non_positive_dot_pitch_is_rendered [OF h, of zero_draws small_canvas] h
    by (simp add: d)
qed

subsection \<open>C8\<close>




subsection \<open>C9\<close>

text \<open>
  C9, as stated, fails: with grain \<open>1\<close> and a draw of \<open>0.9\<close>, a pixel of opacity \<open>0\<close> is
  perturbed to \<open>0.4\<close> (the draw is consumed) and black ink is deposited on it.
\<close>

theorem grain_on_zero_opacity_counterexample:
  "[0::real] ! 0 = 0 \<and>
   composite_layer high_draws 1 1 [0] (RGB 0 0 0) 1 1 0 0 ([255, 255, 255, 255], 0)
     = ([153, 153, 153, 255], 1)"
proof -
  have "apply_grain high_draws 1 0 0 = (2 / 5, 1)"
    by (simp add: apply_grain_def high_draws_def)
  moreover have "blend_pixel [255, 255, 255, 255] 0 (RGB 0 0 0) 1 (2 / 5) = [153, 153, 153, 255]"
    by (simp add: blend_pixel_def Let_def js_round_def to_uint8_clamped_def)
  ultimately show ?thesis
    by (simp add: composite_layer_def composite_pixel_def Let_def)
qed

text \<open>
  C9, amended. With grain \<open>g > 0\<close> and draws in \<open>[0, 1)\<close>: every pixel whose shifted position
  lies inside the image, whatever its opacity, consumes one draw and has the perturbation
  \<open>(draw - 0.5) \<times> g\<close>, which lies in \<open>[-g/2, g/2)\<close>, added to its opacity, the sum clamped to
  \<open>[0, 1]\<close>; ink is deposited unless the result is below \<open>0.004\<close>, so a pixel of opacity \<open>0\<close>
  receives ink exactly when its perturbation is at least \<open>0.004\<close>. A pixel whose shifted
  position lies outside the image consumes no draw and leaves the buffer unchanged.
\<close>

theorem grain_perturbs_every_pixel_in_bounds:
  assumes "gr > 0" and "0 \<le> rnd k" and "rnd k < 1"
  shows "(src_index w h ox oy y x = None \<longrightarrow>
            composite_pixel rnd w h hm ink f gr ox oy y x (out, k) = (out, k))
         \<and> (\<forall>i. src_index w h ox oy y x = Some i \<longrightarrow>
               - gr / 2 \<le> (rnd k - 0.5) * gr \<and> (rnd k - 0.5) * gr < gr / 2 \<and>
               composite_pixel rnd w h hm ink f gr ox oy y x (out, k)
                 = (if max 0 (min 1 (hm ! i + (rnd k - 0.5) * gr)) < 0.004 then out
                    else blend_pixel out ((y * w + x) * 4) ink f
                           (max 0 (min 1 (hm ! i + (rnd k - 0.5) * gr))),
                    Suc k) \<and>
               (hm ! i = 0 \<longrightarrow>
                  (max 0 (min 1 (hm ! i + (rnd k - 0.5) * gr)) < 0.004
                     \<longleftrightarrow> (rnd k - 0.5) * gr < 0.004)))"
proof -
  have lo: "- gr / 2 \<le> (rnd k - 0.5) * gr"
  proof -
    have "- (1 / 2) * gr \<le> (rnd k - 0.5) * gr"
      using assms(1,2) by (intro mult_right_mono) simp_all
    then show ?thesis by simp
  qed
  have hi: "(rnd k - 0.5) * gr < gr / 2"
  proof -
    have "(rnd k - 0.5) * gr < (1 / 2) * gr"
      using assms(1,3) by (intro mult_strict_right_mono) simp_all
    then show ?thesis by simp
  qed
  have g: "apply_grain rnd gr v k = (max 0 (min 1 (v + (rnd k - 0.5) * gr)), Suc k)" for v
    using assms(1) by (simp add: apply_grain_def)
  show ?thesis
    using lo hi by (auto simp: composite_pixel_src g)
qed

theorem grain_perturbs_every_pixel_in_bounds_witness:
  "(1::real) > 0 \<and> 0 \<le> high_draws 0 \<and> high_draws 0 < 1 \<and>
   src_index 1 1 0 0 0 0 = Some 0 \<and> [0::real] ! 0 = 0 \<and>
   composite_pixel high_draws 1 1 [0] (RGB 0 0 0) 1 1 0 0 0 0 ([255, 255, 255, 255], 0)
     = (blend_pixel [255, 255, 255, 255] 0 (RGB 0 0 0) 1 (2 / 5), Suc 0) \<and>
   src_index 1 1 1 0 0 0 = None \<and>
   composite_pixel high_draws 1 1 [0] (RGB 0 0 0) 1 1 1 0 0 0 ([255, 255, 255, 255], 0)
     = ([255, 255, 255, 255], 0)"
proof -
  have h: "(1::real) > 0" "0 \<le> high_draws 0" "high_draws 0 < 1"
    by (simp_all add: high_draws_def)
  have s: "src_index 1 1 0 0 0 0 = Some 0" "src_index 1 1 1 0 0 0 = None"
    by (simp_all add: src_index_def)
  show ?thesis
    using grain_perturbs_every_pixel_in_bounds
            [where gr = 1 and rnd = high_draws and k = 0, OF h,
             of 1 1 0 0 0 0 "[0]" "RGB 0 0 0" 1 "[255, 255, 255, 255]"]
          grain_perturbs_every_pixel_in_bounds
            [where gr = 1 and rnd = high_draws and k = 0, OF h,
             of 1 1 1 0 0 0 "[0]" "RGB 0 0 0" 1 "[255, 255, 255, 255]"]
          s
    by (simp add: high_draws_def)
qed

subsection \<open>C10\<close>

text \<open>
  C10. With grain \<open>0\<close> and misregistration \<open>0\<close> the result of a render, canvas included,
  does not depend on the random source: any two sequences of draws give the same outcome
  for the same bitmap, canvas and options. What remains of the dot placement and of the
  scuff noise comes from \<open>cellHash\<close> and \<open>scuffHash\<close>, functions of integer cell coordinates
  (and of the seed made from the ink index) alone.
\<close>

theorem render_is_deterministic_without_grain_and_misregistration:
  assumes "grain options = 0" and "misregistration options = 0"
  shows "processRisograph rnd1 img cv options = processRisograph rnd2 img cv options"
proof -
  have eq: "render_layer rnd1 options = render_layer rnd2 options"
    using render_layer_no_random [OF assms] by (intro ext)
  show ?thesis unfolding processRisograph_def eq ..
qed

theorem render_is_deterministic_without_grain_and_misregistration_witness:
  "grain zero_pitch_options = 0 \<and> misregistration zero_pitch_options = 0 \<and>
   processRisograph zero_draws black_pixel_image small_canvas zero_pitch_options
     = processRisograph high_draws black_pixel_image small_canvas zero_pitch_options"
proof -
  have h: "grain zero_pitch_options = 0" "misregistration zero_pitch_options = 0"
    by (simp_all add: zero_pitch_options_def)
  show ?thesis
    using render_is_deterministic_without_grain_and_misregistration
            [OF h, of zero_draws black_pixel_image small_canvas high_draws] h
    by simp
qed

end
